theory Spec2Isabelle
  imports Main "HOL-Library.AList"
begin

section \<open>JavaScript string and array primitives used by the controller\<close>

text \<open>
  Strings are character lists. Indices are \<open>int\<close>, because \<open>indexOf\<close> and
  \<open>lastIndexOf\<close> answer \<open>-1\<close> when the pattern does not occur and the controller
  compares that answer with \<open>0\<close>.
\<close>

fun startsWith :: "string \<Rightarrow> string \<Rightarrow> bool" where
  "startsWith s [] = True"
| "startsWith [] (p # ps) = False"
| "startsWith (c # cs) (p # ps) = (c = p \<and> startsWith cs ps)"

text \<open>\<open>s.indexOf(pat)\<close>: the index of the first occurrence, or \<open>-1\<close>.\<close>

fun indexOf :: "string \<Rightarrow> string \<Rightarrow> int" where
  "indexOf [] pat = (if pat = [] then 0 else - 1)"
| "indexOf (c # cs) pat =
     (if startsWith (c # cs) pat then 0
      else (let r = indexOf cs pat in if r < 0 then - 1 else r + 1))"

text \<open>\<open>s.lastIndexOf(pat)\<close>: the index of the last occurrence, or \<open>-1\<close>.\<close>

fun lastIndexOf :: "string \<Rightarrow> string \<Rightarrow> int" where
  "lastIndexOf [] pat = (if pat = [] then 0 else - 1)"
| "lastIndexOf (c # cs) pat =
     (let r = lastIndexOf cs pat in
      if 0 \<le> r then r + 1
      else if startsWith (c # cs) pat then 0 else - 1)"

text \<open>\<open>s.split(sep)\<close> for a separator of one character; the result is never empty.\<close>

fun split :: "string \<Rightarrow> char \<Rightarrow> string list" where
  "split [] sep = [[]]"
| "split (c # cs) sep =
     (if c = sep then [] # split cs sep
      else (case split cs sep of
              [] \<Rightarrow> [[c]]
            | x # xs \<Rightarrow> (c # x) # xs))"

text \<open>\<open>a.pop()\<close> as far as the array is concerned: the last element is dropped.\<close>

definition pop :: "'a list \<Rightarrow> 'a list" where
  "pop xs = butlast xs"

text \<open>\<open>a.join(sep)\<close>.\<close>

fun join :: "string list \<Rightarrow> string \<Rightarrow> string" where
  "join [] sep = []"
| "join [x] sep = x"
| "join (x # y # ys) sep = x @ sep @ join (y # ys) sep"

text \<open>\<open>s.substr(start)\<close>: a negative start counts from the end of the string.\<close>

definition substr :: "string \<Rightarrow> int \<Rightarrow> string" where
  "substr s start =
     (if start < 0 then drop (nat (int (length s) + start)) s
      else drop (nat start) s)"

text \<open>
  \<open>s.replace(pat, rep)\<close> with a string pattern: only the first occurrence is replaced.
\<close>

fun replace :: "string \<Rightarrow> string \<Rightarrow> string \<Rightarrow> string" where
  "replace [] pat rep = (if pat = [] then rep else [])"
| "replace (c # cs) pat rep =
     (if startsWith (c # cs) pat then rep @ drop (length pat) (c # cs)
      else c # replace cs pat rep)"

text \<open>\<open>s.toLowerCase()\<close> on the ASCII letters; every other character is kept.\<close>

definition lowerChar :: "char \<Rightarrow> char" where
  "lowerChar c =
     (case map_of (zip ''ABCDEFGHIJKLMNOPQRSTUVWXYZ'' ''abcdefghijklmnopqrstuvwxyz'') c of
        None \<Rightarrow> c
      | Some l \<Rightarrow> l)"

definition toLowerCase :: "string \<Rightarrow> string" where
  "toLowerCase s = map lowerChar s"

section \<open>The framework as the controller sees it\<close>

text \<open>
  Controllers, loaded controls, models, callbacks and data objects are framework objects;
  the controller only passes them on and compares them by identity, so each is a
  reference.
\<close>

type_synonym ref = nat

datatype error = TypeError

text \<open>
  A view answers \<open>getId()\<close>, \<open>getViewName()\<close> and \<open>getModel(name)\<close>; the model
  name \<open>None\<close> stands for the call without an argument, the answer \<open>None\<close> for
  \<open>undefined\<close>.
\<close>

record view_obj =
  viewId :: string
  viewName :: string
  viewModels :: "string option \<Rightarrow> ref option"

text \<open>A controller instance: its identity and the view \<open>getView()\<close> returns.\<close>

record base_controller =
  self :: ref
  view :: view_obj

text \<open>The router \<open>UIComponent.getRouterFor\<close> returns for a controller.\<close>

datatype router = RouterFor ref

type_synonym params = "(string \<times> string) list"

text \<open>
  The entries of \<open>_fragments\<close>. The field \<open>fragment\<close> holds \<open>undefined\<close>, the
  placeholder \<open>{}\<close> or a loaded control; the field \<open>controller\<close> holds \<open>undefined\<close>
  (the field is absent), the placeholder \<open>{}\<close> or a controller.
\<close>

datatype fragment_val = FUndefined | FEmpty | FLoaded ref

datatype controller_val = CUndefined | CEmpty | CRef ref

record registry_entry =
  fragment :: fragment_val
  controller :: controller_val

text \<open>Every call the controller makes into the framework, in the order made.\<close>

datatype call =
    View_getModel string "string option"
  | UIComponent_getRouterFor ref
  | Router_navTo router string "params option" "params option" "bool option"
  | History_getPreviousHash
  | Window_history_back
  | Controller_create string
  | Sap_ui_require string
  | Fragment_load string string "ref option"
  | View_addDependent string ref
  | Fragment_setModel ref ref
  | Controller_onBeforeShow controller_val "ref option" ref "ref option" "ref option"
  | SetTimeout_open ref nat
  | Fragment_open ref
  | Fragment_isOpen ref
  | Fragment_close ref

text \<open>
  The state the controller methods act on: the module-global dictionary \<open>_fragments\<close>
  (an association list in insertion order, the order \<open>for ... in\<close> visits its keys: every
  key contains a \<open>-\<close>, so none is an array index and none names a property inherited
  from \<open>Object.prototype\<close>), which loaded controls are open, which of them have an
  \<open>isOpen\<close> method, the log of framework calls, which controllers have an
  \<open>onBeforeShow\<close> method (neither \<open>Controller\<close> nor \<open>BaseController\<close> defines one),
  and the exceptions that rejected a promise nothing handles.
\<close>

record app_state =
  fragments :: "(string \<times> registry_entry) list"
  isOpen :: "ref \<Rightarrow> bool"
  hasIsOpen :: "ref \<Rightarrow> bool"
  calls :: "call list"
  hasOnBeforeShow :: "ref \<Rightarrow> bool"
  unhandled :: "error list"

definition called :: "call \<Rightarrow> app_state \<Rightarrow> app_state" where
  "called c st = st\<lparr>calls := calls st @ [c]\<rparr>"

text \<open>
  An exception in a promise handler rejects the promise the handler answers for. When
  nothing handles that promise the exception is recorded; what the handler did before it
  stays done.
\<close>

definition raised :: "error \<Rightarrow> app_state \<Rightarrow> app_state" where
  "raised e st = st\<lparr>unhandled := unhandled st @ [e]\<rparr>"

definition lookupFragment :: "app_state \<Rightarrow> string \<Rightarrow> registry_entry option" where
  "lookupFragment st k = map_of (fragments st) k"

definition storeFragment :: "string \<Rightarrow> registry_entry \<Rightarrow> app_state \<Rightarrow> app_state" where
  "storeFragment k e st = st\<lparr>fragments := AList.update k e (fragments st)\<rparr>"

text \<open>\<open>fragment.open()\<close> and \<open>fragment.close()\<close> on a loaded control.\<close>

definition openFragment :: "ref \<Rightarrow> app_state \<Rightarrow> app_state" where
  "openFragment d st = called (Fragment_open d) (st\<lparr>isOpen := (isOpen st)(d := True)\<rparr>)"

definition closeFragment :: "ref \<Rightarrow> app_state \<Rightarrow> app_state" where
  "closeFragment d st = called (Fragment_close d) (st\<lparr>isOpen := (isOpen st)(d := False)\<rparr>)"

section \<open>Model and navigation methods\<close>

text \<open>A string argument is truthy when it is given and not empty.\<close>

fun truthy :: "string option \<Rightarrow> bool" where
  "truthy None = False"
| "truthy (Some s) = (s \<noteq> [])"

definition getModel ::
  "base_controller \<Rightarrow> string option \<Rightarrow> app_state \<Rightarrow> ref option \<times> app_state" where
  "getModel this modelName st =
     (if truthy modelName
      then (viewModels (view this) modelName,
            called (View_getModel (viewId (view this)) modelName) st)
      else (viewModels (view this) None,
            called (View_getModel (viewId (view this)) None) st))"

definition getRouter :: "base_controller \<Rightarrow> app_state \<Rightarrow> router \<times> app_state" where
  "getRouter this st =
     (RouterFor (self this), called (UIComponent_getRouterFor (self this)) st)"

definition navTo ::
  "base_controller \<Rightarrow> string \<Rightarrow> params option \<Rightarrow> params option \<Rightarrow> bool option \<Rightarrow>
   app_state \<Rightarrow> app_state" where
  "navTo this psTarget pmParameters oComponentTargetInfo pbReplace st =
     (case getRouter this st of
        (r, st1) \<Rightarrow>
          called (Router_navTo r psTarget pmParameters oComponentTargetInfo pbReplace) st1)"

text \<open>
  \<open>onNavBack\<close>; \<open>sPreviousHash\<close> is what \<open>History.getInstance().getPreviousHash()\<close>
  answers, \<open>None\<close> for \<open>undefined\<close>.
\<close>

definition onNavBack :: "base_controller \<Rightarrow> string option \<Rightarrow> app_state \<Rightarrow> app_state" where
  "onNavBack this sPreviousHash st =
     (let st1 = called History_getPreviousHash st in
      if sPreviousHash \<noteq> None then called Window_history_back st1
      else (case getRouter this st1 of
              (r, st2) \<Rightarrow>
                called (Router_navTo r ''appHome'' (Some []) (Some []) (Some True)) st2))"

text \<open>The route table of \<open>manifest.json\<close> (\<open>sap.ui5.routing.routes\<close>).\<close>

record route =
  routeName :: string
  routePattern :: string
  routeTarget :: string

definition manifest_routes :: "route list" where
  "manifest_routes =
     [\<lparr>routeName = ''home'', routePattern = [], routeTarget = ''home''\<rparr>]"

section \<open>Dialog fragments\<close>

text \<open>
  The first statements of \<open>openDialog\<close> (up to the fragment path): from the name given
  and the controller's view they compute \<open>sViewPath\<close> and the new value of \<open>sName\<close>.
\<close>

definition dialogNames :: "base_controller \<Rightarrow> string \<Rightarrow> string \<times> string" where
  "dialogNames this sName0 =
     (case (if 0 < indexOf sName0 ''.''
            then (split sName0 CHR ''.'', substr sName0 (lastIndexOf sName0 ''.'' + 1))
            else (split (viewName (view this)) CHR ''.'', sName0)) of
        (aViewName, sName) \<Rightarrow>
          (let sViewPath = join (pop aViewName) ''.'' in
           (if 0 < indexOf (toLowerCase sViewPath) ''fragments''
            then sViewPath @ ''.''
            else sViewPath @ ''.fragments.'',
            sName)))"

text \<open>The key of a fragment in \<open>_fragments\<close>.\<close>

definition fragmentKey :: "base_controller \<Rightarrow> string \<Rightarrow> string" where
  "fragmentKey this sName = viewId (view this) @ ''-'' @ sName"

text \<open>What the callbacks of one \<open>openDialog\<close> call have captured.\<close>

record dialog_request =
  rqThis :: base_controller
  rqId :: string
  rqName :: string
  rqModel :: "ref option"
  rqUpdateModelAlways :: "bool option"
  rqCallback :: "ref option"
  rqData :: "ref option"

text \<open>
  What a call leaves pending: the promise of \<open>Controller.create\<close>, the callback of
  \<open>sap.ui.require\<close>, the promise of \<open>Fragment.load\<close> (both with the controller the
  fragment gets), the timer that opens the loaded fragment.
\<close>

datatype pending =
    ControllerPending dialog_request
  | RequirePending dialog_request "ref option"
  | LoadPending dialog_request "ref option"
  | OpenPending ref

text \<open>
  The synchronous part of \<open>openDialog\<close>. An entry of \<open>_fragments\<close> is an object and
  so truthy: \<open>!_fragments[id]\<close> holds exactly when the key is absent. Calling \<open>open\<close>
  on \<open>undefined\<close> or on the placeholder \<open>{}\<close> raises a TypeError.
\<close>

definition openDialog ::
  "base_controller \<Rightarrow> string \<Rightarrow> ref option \<Rightarrow> bool option \<Rightarrow> ref option \<Rightarrow> ref option \<Rightarrow>
   app_state \<Rightarrow> error + (app_state \<times> pending option)" where
  "openDialog this sName0 model updateModelAlways callback data st =
     (case dialogNames this sName0 of
        (sViewPath, sName) \<Rightarrow>
          (let fid = fragmentKey this sName in
           case lookupFragment st fid of
             None \<Rightarrow>
               (let sControllerPath = replace sViewPath ''view'' ''controller'';
                    st1 = storeFragment fid \<lparr>fragment = FEmpty, controller = CEmpty\<rparr> st;
                    st2 = called (Controller_create (sControllerPath @ sName)) st1
                in Inr (st2,
                     Some (ControllerPending
                       \<lparr>rqThis = this, rqId = fid, rqName = sViewPath @ sName,
                        rqModel = model, rqUpdateModelAlways = updateModelAlways,
                        rqCallback = callback, rqData = data\<rparr>)))
           | Some e \<Rightarrow>
               (case fragment e of
                  FLoaded d \<Rightarrow> Inr (openFragment d st, None)
                | FEmpty \<Rightarrow> Inl TypeError
                | FUndefined \<Rightarrow> Inl TypeError)))"

text \<open>
  The synchronous part of \<open>createDialogFragment\<close>: \<open>sap.ui.require\<close> with a
  dependency array returns \<open>undefined\<close> and calls back later, so the entry is replaced
  by an object whose only field, \<open>fragment\<close>, is \<open>undefined\<close>.
\<close>

definition createDialogFragment :: "dialog_request \<Rightarrow> ref option \<Rightarrow> app_state \<Rightarrow> app_state \<times> pending" where
  "createDialogFragment rq oController st =
     (let st1 = called (Sap_ui_require ''sap/ui/core/Fragment'') st;
          st2 = storeFragment (rqId rq) \<lparr>fragment = FUndefined, controller = CUndefined\<rparr> st1
      in (st2, RequirePending rq oController))"

text \<open>Assigning to a field of \<open>_fragments[k]\<close> raises a TypeError when the key is absent.\<close>

definition setController :: "string \<Rightarrow> controller_val \<Rightarrow> app_state \<Rightarrow> error + app_state" where
  "setController k c st =
     (case lookupFragment st k of
        None \<Rightarrow> Inl TypeError
      | Some e \<Rightarrow> Inr (storeFragment k (e\<lparr>controller := c\<rparr>) st))"

definition setFragment :: "string \<Rightarrow> fragment_val \<Rightarrow> app_state \<Rightarrow> error + app_state" where
  "setFragment k f st =
     (case lookupFragment st k of
        None \<Rightarrow> Inl TypeError
      | Some e \<Rightarrow> Inr (storeFragment k (e\<lparr>fragment := f\<rparr>) st))"

text \<open>
  The \<open>then\<close> handler of \<open>Controller.create\<close>, called with the new controller. A
  handler that raises answers the exception and the state it raised in.
\<close>

definition onControllerCreated ::
  "dialog_request \<Rightarrow> ref \<Rightarrow> app_state \<Rightarrow> error \<times> app_state + app_state \<times> pending" where
  "onControllerCreated rq oController st =
     (case setController (rqId rq) (CRef oController) st of
        Inl e \<Rightarrow> Inl (e, st)
      | Inr st1 \<Rightarrow> Inr (createDialogFragment rq (Some oController) st1))"

text \<open>The \<open>catch\<close> handler: the calling controller takes the place of the new one.\<close>

definition onControllerFailed ::
  "dialog_request \<Rightarrow> app_state \<Rightarrow> error \<times> app_state + app_state \<times> pending" where
  "onControllerFailed rq st =
     (case setController (rqId rq) (CRef (self (rqThis rq))) st of
        Inl e \<Rightarrow> Inl (e, st)
      | Inr st1 \<Rightarrow> Inr (createDialogFragment rq (Some (self (rqThis rq))) st1))"

text \<open>
  The promise of \<open>Controller.create\<close> settles: \<open>Some c\<close> when it resolves with the
  controller \<open>c\<close>, \<open>None\<close> when it rejects. The \<open>catch\<close> is chained after the
  \<open>then\<close>, so it also runs when the \<open>then\<close> handler raises.
\<close>

definition controllerSettled ::
  "dialog_request \<Rightarrow> ref option \<Rightarrow> app_state \<Rightarrow> error \<times> app_state + app_state \<times> pending" where
  "controllerSettled rq outcome st =
     (case outcome of
        None \<Rightarrow> onControllerFailed rq st
      | Some c \<Rightarrow>
          (case onControllerCreated rq c st of
             Inl (e, st1) \<Rightarrow> onControllerFailed rq st1
           | Inr r \<Rightarrow> Inr r))"

text \<open>The callback of \<open>sap.ui.require\<close>: it asks for the fragment.\<close>

definition onFragmentClass :: "dialog_request \<Rightarrow> ref option \<Rightarrow> app_state \<Rightarrow> app_state \<times> pending" where
  "onFragmentClass rq oController st =
     (called (Fragment_load (rqId rq) (rqName rq) oController) st, LoadPending rq oController)"

text \<open>A controller argument as a value of the registry field.\<close>

fun controllerVal :: "ref option \<Rightarrow> controller_val" where
  "controllerVal None = CUndefined"
| "controllerVal (Some c) = CRef c"

text \<open>
  Calling \<open>onBeforeShow\<close> on what the field \<open>controller\<close> of an entry holds: on
  \<open>undefined\<close>, on the placeholder \<open>{}\<close> and on a controller without that method
  the call raises a TypeError.
\<close>

definition callOnBeforeShow ::
  "controller_val \<Rightarrow> ref option \<Rightarrow> ref \<Rightarrow> ref option \<Rightarrow> ref option \<Rightarrow> app_state \<Rightarrow>
   error + app_state" where
  "callOnBeforeShow receiver oController oFragment callback data st =
     (case receiver of
        CUndefined \<Rightarrow> Inl TypeError
      | CEmpty \<Rightarrow> Inl TypeError
      | CRef r \<Rightarrow>
          (if hasOnBeforeShow st r
           then Inr (called (Controller_onBeforeShow receiver oController oFragment
                       callback data) st)
           else Inl TypeError))"

text \<open>
  The \<open>then\<close> handler of \<open>Fragment.load\<close>, called with the loaded control. The
  receiver of \<open>onBeforeShow\<close> is the controller read back from the registry entry; the
  call is made without a test for the method and before the timer is set.
\<close>

definition onFragmentLoaded ::
  "dialog_request \<Rightarrow> ref option \<Rightarrow> ref \<Rightarrow> app_state \<Rightarrow>
   error \<times> app_state + app_state \<times> pending" where
  "onFragmentLoaded rq oController oFragment st =
     (case setFragment (rqId rq) (FLoaded oFragment) st of
        Inl e \<Rightarrow> Inl (e, st)
      | Inr st1 \<Rightarrow>
          (let st2 = called (View_addDependent (viewId (view (rqThis rq))) oFragment) st1 in
           case setController (rqId rq) (controllerVal oController) st2 of
             Inl e \<Rightarrow> Inl (e, st2)
           | Inr st3 \<Rightarrow>
               (let st4 = (case (rqModel rq, rqUpdateModelAlways rq) of
                             (Some m, Some True) \<Rightarrow> called (Fragment_setModel oFragment m) st3
                           | _ \<Rightarrow> st3)
                in case (if oController \<noteq> None \<and> oController \<noteq> Some (self (rqThis rq))
                         then (case lookupFragment st4 (rqId rq) of
                                 None \<Rightarrow> Inl TypeError
                               | Some e \<Rightarrow>
                                   callOnBeforeShow (controller e) oController oFragment
                                     (rqCallback rq) (rqData rq) st4)
                         else Inr st4) of
                     Inl e \<Rightarrow> Inl (e, st4)
                   | Inr st5 \<Rightarrow>
                       Inr (called (SetTimeout_open oFragment 100) st5, OpenPending oFragment))))"

text \<open>The timer fires: the loaded fragment is opened.\<close>

definition onTimeout :: "ref \<Rightarrow> app_state \<Rightarrow> app_state" where
  "onTimeout oFragment st = openFragment oFragment st"

text \<open>
  One step of the framework on what is pending. The framework supplies the outcome of
  \<open>Controller.create\<close> (\<open>None\<close>: rejected) and the control \<open>Fragment.load\<close>
  resolves with. Nothing handles the promises the handlers answer for: when a handler
  raises, the exception is recorded and nothing is left pending.
\<close>

fun resume :: "ref option \<Rightarrow> ref \<Rightarrow> pending \<Rightarrow> app_state \<Rightarrow> app_state \<times> pending option" where
  "resume outcome oFragment (ControllerPending rq) st =
     (case controllerSettled rq outcome st of
        Inl (e, st1) \<Rightarrow> (raised e st1, None)
      | Inr (st1, p) \<Rightarrow> (st1, Some p))"
| "resume outcome oFragment (RequirePending rq oController) st =
     (case onFragmentClass rq oController st of (st1, p) \<Rightarrow> (st1, Some p))"
| "resume outcome oFragment (LoadPending rq oController) st =
     (case onFragmentLoaded rq oController oFragment st of
        Inl (e, st1) \<Rightarrow> (raised e st1, None)
      | Inr (st1, p) \<Rightarrow> (st1, Some p))"
| "resume outcome oFragment (OpenPending d) st = (onTimeout d st, None)"

text \<open>Pending work is resumed until none is left; every step leaves at most one.\<close>

fun resumeAll ::
  "nat \<Rightarrow> ref option \<Rightarrow> ref \<Rightarrow> app_state \<times> pending option \<Rightarrow> app_state \<times> pending option" where
  "resumeAll n outcome oFragment (st, None) = (st, None)"
| "resumeAll 0 outcome oFragment (st, Some p) = (st, Some p)"
| "resumeAll (Suc n) outcome oFragment (st, Some p) =
     resumeAll n outcome oFragment (resume outcome oFragment p st)"

text \<open>
  A call of \<open>openDialog\<close> together with everything it leaves pending, nothing else
  running in between: the call, the settled promise of \<open>Controller.create\<close>, the
  callback of \<open>sap.ui.require\<close>, the resolved promise of \<open>Fragment.load\<close>, the timer.
  Only an exception of the call itself reaches the caller.
\<close>

definition openDialogCompleted ::
  "base_controller \<Rightarrow> string \<Rightarrow> ref option \<Rightarrow> bool option \<Rightarrow> ref option \<Rightarrow> ref option \<Rightarrow>
   ref option \<Rightarrow> ref \<Rightarrow> app_state \<Rightarrow> error + (app_state \<times> pending option)" where
  "openDialogCompleted this sName model updateModelAlways callback data outcome oFragment st =
     (case openDialog this sName model updateModelAlways callback data st of
        Inl e \<Rightarrow> Inl e
      | Inr r \<Rightarrow> Inr (resumeAll (Suc (Suc (Suc (Suc 0)))) outcome oFragment r))"

text \<open>
  \<open>closeFragments\<close>: the loop over the keys of \<open>_fragments\<close>. Reading a field of
  \<open>_fragments[f]\<close> would raise a TypeError for an absent key; \<open>undefined\<close> is falsy,
  and the placeholder \<open>{}\<close> has no \<open>isOpen\<close>.
\<close>

fun closeEach :: "string list \<Rightarrow> app_state \<Rightarrow> error + app_state" where
  "closeEach [] st = Inr st"
| "closeEach (f # fs) st =
     (case lookupFragment st f of
        None \<Rightarrow> Inl TypeError
      | Some e \<Rightarrow>
          (case fragment e of
             FUndefined \<Rightarrow> closeEach fs st
           | FEmpty \<Rightarrow> closeEach fs st
           | FLoaded d \<Rightarrow>
               (if hasIsOpen st d
                then (let st1 = called (Fragment_isOpen d) st in
                      if isOpen st1 d then closeEach fs (closeFragment d st1)
                      else closeEach fs st1)
                else closeEach fs st)))"

definition closeFragments :: "base_controller \<Rightarrow> app_state \<Rightarrow> error + app_state" where
  "closeFragments this st = closeEach (map fst (fragments st)) st"

definition getFragment :: "base_controller \<Rightarrow> string \<Rightarrow> app_state \<Rightarrow> registry_entry option" where
  "getFragment this fragmentName st = lookupFragment st (fragmentKey this fragmentName)"

section \<open>The page history\<close>

text \<open>
  \<open>addHistoryEntry\<close> is a closure over the array \<open>aHistoryEntries\<close>, one per
  controller instance. Its state: the array, the number of pending promises of
  \<open>getService("ShellUIService")\<close>, and the arrays handed to \<open>setHierarchy\<close> so far.
\<close>

record history_entry =
  title :: string
  intent :: string

record history_state =
  aHistoryEntries :: "history_entry list"
  servicePending :: nat
  hierarchies :: "history_entry list list"

definition addHistoryEntry :: "history_entry \<Rightarrow> bool \<Rightarrow> history_state \<Rightarrow> history_state" where
  "addHistoryEntry oEntry bReset hs =
     (let hs1 = (if bReset then hs\<lparr>aHistoryEntries := []\<rparr> else hs);
          bInHistory = list_ex (\<lambda>oHistoryEntry. intent oHistoryEntry = intent oEntry)
                         (aHistoryEntries hs1)
      in if \<not> bInHistory
         then hs1\<lparr>aHistoryEntries := aHistoryEntries hs1 @ [oEntry],
                  servicePending := Suc (servicePending hs1)\<rparr>
         else hs1)"

text \<open>
  A promise of the service resolves: its handler passes the array as it is then to
  \<open>setHierarchy\<close>.
\<close>

definition onShellUIService :: "history_state \<Rightarrow> history_state" where
  "onShellUIService hs =
     (if 0 < servicePending hs
      then hs\<lparr>servicePending := servicePending hs - 1,
               hierarchies := hierarchies hs @ [aHistoryEntries hs]\<rparr>
      else hs)"

definition initialHistory :: history_state where
  "initialHistory = \<lparr>aHistoryEntries = [], servicePending = 0, hierarchies = []\<rparr>"

text \<open>Any sequence of calls of \<open>addHistoryEntry\<close> and of resolved service promises.\<close>

datatype history_op = Add history_entry bool | ServiceResolved

fun runHistory :: "history_op list \<Rightarrow> history_state \<Rightarrow> history_state" where
  "runHistory [] hs = hs"
| "runHistory (Add oEntry bReset # ops) hs = runHistory ops (addHistoryEntry oEntry bReset hs)"
| "runHistory (ServiceResolved # ops) hs = runHistory ops (onShellUIService hs)"

section \<open>Notions the properties are stated with\<close>

text \<open>
  The last dot-segment of a name (what follows its last \<open>.\<close>, the whole name when it has
  none), and the name with its last segment and the dot before it removed.
\<close>

definition lastSegment :: "string \<Rightarrow> string" where
  "lastSegment s = rev (takeWhile (\<lambda>c. c \<noteq> CHR ''.'') (rev s))"

definition withoutLastSegment :: "string \<Rightarrow> string" where
  "withoutLastSegment s = rev (tl (dropWhile (\<lambda>c. c \<noteq> CHR ''.'') (rev s)))"

text \<open>The calls a state has logged beyond those of an earlier state.\<close>

definition newCalls :: "app_state \<Rightarrow> app_state \<Rightarrow> call list" where
  "newCalls st st' = drop (length (calls st)) (calls st')"

text \<open>The controllers created, the fragments loaded and the models set by a list of calls.\<close>

fun createdNames :: "call list \<Rightarrow> string list" where
  "createdNames [] = []"
| "createdNames (Controller_create n # cs) = n # createdNames cs"
| "createdNames (c # cs) = createdNames cs"

fun loadedNames :: "call list \<Rightarrow> string list" where
  "loadedNames [] = []"
| "loadedNames (Fragment_load k n c # cs) = n # loadedNames cs"
| "loadedNames (c # cs) = loadedNames cs"

fun modelsSet :: "call list \<Rightarrow> (ref \<times> ref) list" where
  "modelsSet [] = []"
| "modelsSet (Fragment_setModel d m # cs) = (d, m) # modelsSet cs"
| "modelsSet (c # cs) = modelsSet cs"

fun closedFragments :: "call list \<Rightarrow> ref list" where
  "closedFragments [] = []"
| "closedFragments (Fragment_close d # cs) = d # closedFragments cs"
| "closedFragments (c # cs) = closedFragments cs"

text \<open>The controller a fragment ends up with when \<open>Controller.create\<close> has settled.\<close>

definition settledController :: "base_controller \<Rightarrow> ref option \<Rightarrow> ref" where
  "settledController this outcome = (case outcome of None \<Rightarrow> self this | Some c \<Rightarrow> c)"

definition setModelCalls :: "ref \<Rightarrow> ref option \<Rightarrow> bool option \<Rightarrow> call list" where
  "setModelCalls d model updateModelAlways =
     (case (model, updateModelAlways) of
        (Some m, Some True) \<Rightarrow> [Fragment_setModel d m]
      | _ \<Rightarrow> [])"

definition beforeShowCalls ::
  "base_controller \<Rightarrow> ref \<Rightarrow> ref \<Rightarrow> ref option \<Rightarrow> ref option \<Rightarrow> call list" where
  "beforeShowCalls this c d callback data =
     (if c \<noteq> self this then [Controller_onBeforeShow (CRef c) (Some c) d callback data]
      else [])"

text \<open>
  The loaded controls registered under some key that have an \<open>isOpen\<close> method
  answering true.
\<close>

definition registeredOpen :: "app_state \<Rightarrow> ref \<Rightarrow> bool" where
  "registeredOpen st d =
     (hasIsOpen st d \<and> isOpen st d \<and>
      list_ex (\<lambda>k. case lookupFragment st k of
                     None \<Rightarrow> False
                   | Some e \<Rightarrow> fragment e = FLoaded d)
        (map fst (fragments st)))"

text \<open>The same, for the entries under the keys of a list.\<close>

definition targets :: "string list \<Rightarrow> app_state \<Rightarrow> ref set" where
  "targets ks st =
     {d. hasIsOpen st d \<and> isOpen st d \<and>
         (\<exists>k \<in> set ks. \<exists>e. lookupFragment st k = Some e \<and> fragment e = FLoaded d)}"

fun isOpenOrClose :: "call \<Rightarrow> bool" where
  "isOpenOrClose (Fragment_isOpen d) = True"
| "isOpenOrClose (Fragment_close d) = True"
| "isOpenOrClose c = False"

text \<open>
  The fragment name as the specification words it: for a name with a \<open>.\<close> at a
  position greater than 0 the path is the name without its last segment, otherwise the
  view's name without its last segment; \<open>.fragments\<close> is appended unless the path
  contains \<open>fragments\<close>, in any case, at an index greater than 0; then come a dot and
  the last segment of the name.
\<close>

definition containsFragments :: "string \<Rightarrow> bool" where
  "containsFragments p =
     list_ex (\<lambda>i. startsWith (drop i (toLowerCase p)) ''fragments'') [1 ..< length p]"

definition specFragmentName :: "base_controller \<Rightarrow> string \<Rightarrow> string" where
  "specFragmentName this sName =
     (let p0 = (if CHR ''.'' \<in> set (tl sName) then withoutLastSegment sName
                else withoutLastSegment (viewName (view this)));
          p = (if containsFragments p0 then p0 else p0 @ ''.fragments'')
      in p @ ''.'' @ lastSegment sName)"

text \<open>The registry key as the specification words it.\<close>

definition specFragmentKey :: "base_controller \<Rightarrow> string \<Rightarrow> string" where
  "specFragmentKey this sName = viewId (view this) @ ''-'' @ lastSegment sName"

text \<open>
  The fragment name and the registry key as the controller computes them, in the words
  of the specification where the two agree: a name counts as dotted when its first
  \<open>.\<close> is at a position greater than 0, the fragment name of any other name is the
  whole name, and \<open>.fragments\<close> is also appended to a path that begins with
  \<open>fragments\<close>.
\<close>

definition dotted :: "string \<Rightarrow> bool" where
  "dotted sName = (CHR ''.'' \<in> set sName \<and> hd sName \<noteq> CHR ''.'')"

definition amendedFragmentName :: "base_controller \<Rightarrow> string \<Rightarrow> string" where
  "amendedFragmentName this sName =
     (let p0 = (if dotted sName then withoutLastSegment sName
                else withoutLastSegment (viewName (view this)));
          p = (if containsFragments p0 \<and> \<not> startsWith (toLowerCase p0) ''fragments''
               then p0 else p0 @ ''.fragments'')
      in p @ ''.'' @ (if dotted sName then lastSegment sName else sName))"

definition amendedFragmentKey :: "base_controller \<Rightarrow> string \<Rightarrow> string" where
  "amendedFragmentKey this sName =
     viewId (view this) @ ''-'' @ (if dotted sName then lastSegment sName else sName)"

text \<open>
  The calls of a completed first \<open>openDialog\<close>, and the state it ends in: the entry
  holds the loaded fragment and its controller. When the controller is the calling one,
  or has an \<open>onBeforeShow\<close> method, the timer is set and the fragment opened; otherwise
  the call of \<open>onBeforeShow\<close> has raised a TypeError and neither happens.
\<close>

definition showable :: "base_controller \<Rightarrow> ref option \<Rightarrow> app_state \<Rightarrow> bool" where
  "showable this outcome st =
     (settledController this outcome = self this
      \<or> hasOnBeforeShow st (settledController this outcome))"

definition creationCalls ::
  "base_controller \<Rightarrow> string \<Rightarrow> ref option \<Rightarrow> bool option \<Rightarrow> ref option \<Rightarrow> ref option \<Rightarrow>
   ref option \<Rightarrow> ref \<Rightarrow> app_state \<Rightarrow> call list" where
  "creationCalls this sName model updateModelAlways callback data outcome d st =
     [Controller_create
        (replace (fst (dialogNames this sName)) ''view'' ''controller''
           @ snd (dialogNames this sName)),
      Sap_ui_require ''sap/ui/core/Fragment'',
      Fragment_load (amendedFragmentKey this sName) (amendedFragmentName this sName)
        (Some (settledController this outcome)),
      View_addDependent (viewId (view this)) d]
     @ setModelCalls d model updateModelAlways
     @ (if showable this outcome st
        then beforeShowCalls this (settledController this outcome) d callback data
             @ [SetTimeout_open d 100, Fragment_open d]
        else [])"

definition createdState ::
  "base_controller \<Rightarrow> string \<Rightarrow> ref option \<Rightarrow> bool option \<Rightarrow> ref option \<Rightarrow> ref option \<Rightarrow>
   ref option \<Rightarrow> ref \<Rightarrow> app_state \<Rightarrow> app_state" where
  "createdState this sName model updateModelAlways callback data outcome d st =
     st\<lparr>fragments := AList.update (amendedFragmentKey this sName)
            \<lparr>fragment = FLoaded d, controller = CRef (settledController this outcome)\<rparr>
            (fragments st),
        isOpen := (if showable this outcome st then (isOpen st)(d := True) else isOpen st),
        calls := calls st
           @ creationCalls this sName model updateModelAlways callback data outcome d st,
        unhandled := (if showable this outcome st then unhandled st
                      else unhandled st @ [TypeError])\<rparr>"

text \<open>A controller of the view \<open>app.view.Home\<close> and a state with an empty registry.\<close>

definition homeController :: base_controller where
  "homeController =
     \<lparr>self = 0,
      view = \<lparr>viewId = ''v'', viewName = ''app.view.Home'', viewModels = (\<lambda>n. None)\<rparr>\<rparr>"

definition freshState :: app_state where
  "freshState =
     \<lparr>fragments = [], isOpen = (\<lambda>d. False), hasIsOpen = (\<lambda>d. True), calls = [],
      hasOnBeforeShow = (\<lambda>c. True), unhandled = []\<rparr>"


text \<open>A controller of another view, whose id begins with the id of the first.\<close>

definition otherController :: base_controller where
  "otherController =
     \<lparr>self = 1,
      view = \<lparr>viewId = ''v-a.b'', viewName = ''app.view.Other'', viewModels = (\<lambda>n. None)\<rparr>\<rparr>"

text \<open>A state whose registry holds the loaded fragment \<open>Confirm\<close> of that view.\<close>

definition loadedState :: app_state where
  "loadedState =
     \<lparr>fragments = [(''v-Confirm'', \<lparr>fragment = FLoaded 9, controller = CRef 1\<rparr>)],
      isOpen = (\<lambda>d. False), hasIsOpen = (\<lambda>d. True), calls = [],
      hasOnBeforeShow = (\<lambda>c. True), unhandled = []\<rparr>"

text \<open>
  A registry filled by the \<open>openDialog\<close> calls of one view only: every key is the
  view's id, \<open>-\<close> and a name whose first \<open>.\<close>, if any, is at position 0.
\<close>

definition ownRegistry :: "base_controller \<Rightarrow> app_state \<Rightarrow> bool" where
  "ownRegistry this st =
     list_all (\<lambda>k. startsWith k (viewId (view this) @ ''-'')
                  \<and> \<not> dotted (drop (length (viewId (view this)) + 1) k))
       (map fst (fragments st))"

section \<open>Properties of model access and navigation\<close>

text \<open>
  C6. For a non-empty model name \<open>getModel\<close> returns what the view's \<open>getModel\<close>
  answers for that name; with the name omitted or empty it returns the view's default
  model. The call to the view is all it does: the state is the old one with that one call
  logged.
\<close>

theorem getModel_delegates:
  assumes "s \<noteq> []"
  shows "getModel this (Some s) st =
           (viewModels (view this) (Some s),
            st\<lparr>calls := calls st @ [View_getModel (viewId (view this)) (Some s)]\<rparr>)
       \<and> getModel this None st =
           (viewModels (view this) None,
            st\<lparr>calls := calls st @ [View_getModel (viewId (view this)) None]\<rparr>)
       \<and> getModel this (Some []) st =
           (viewModels (view this) None,
            st\<lparr>calls := calls st @ [View_getModel (viewId (view this)) None]\<rparr>)"
  using assms by (simp add: getModel_def called_def)

theorem getModel_delegates_witness:
  "getModel \<lparr>self = 0, view = \<lparr>viewId = ''v'', viewName = ''app.view.Home'',
       viewModels = (\<lambda>n. if n = Some ''i18n'' then Some 7 else None)\<rparr>\<rparr> (Some ''i18n'')
     \<lparr>fragments = [], isOpen = (\<lambda>d. False), hasIsOpen = (\<lambda>d. True), calls = [],
      hasOnBeforeShow = (\<lambda>c. True), unhandled = []\<rparr>
   = (Some 7,
      \<lparr>fragments = [], isOpen = (\<lambda>d. False), hasIsOpen = (\<lambda>d. True),
       calls = [View_getModel ''v'' (Some ''i18n'')],
       hasOnBeforeShow = (\<lambda>c. True), unhandled = []\<rparr>)"
proof -
  have ne: "''i18n'' \<noteq> []" by simp
  show ?thesis
    using getModel_delegates [OF ne,
        of "\<lparr>self = 0, view = \<lparr>viewId = ''v'', viewName = ''app.view.Home'',
              viewModels = (\<lambda>n. if n = Some ''i18n'' then Some 7 else None)\<rparr>\<rparr>"
           "\<lparr>fragments = [], isOpen = (\<lambda>d. False), hasIsOpen = (\<lambda>d. True), calls = [],
      hasOnBeforeShow = (\<lambda>c. True), unhandled = []\<rparr>"]
    by simp
qed

text \<open>
  C7. \<open>navTo\<close> asks \<open>UIComponent.getRouterFor(this)\<close> for the router and calls its
  \<open>navTo\<close> once, with the four arguments as given and in the given order; nothing else
  of the state changes.
\<close>

theorem navTo_passes_arguments:
  "navTo this t p i r st =
     st\<lparr>calls := calls st @
           [UIComponent_getRouterFor (self this), Router_navTo (RouterFor (self this)) t p i r]\<rparr>"
  by (simp add: navTo_def getRouter_def called_def)

text \<open>
  C5. \<open>onNavBack\<close> goes one step back in the browser history exactly when the previous
  hash is not \<open>undefined\<close>, the empty string included; otherwise it navigates once, to
  the route \<open>appHome\<close> with empty parameters and \<open>replace = true\<close>. The route table of
  the manifest declares no route of that name.
\<close>

theorem onNavBack_behaviour:
  "onNavBack this sPreviousHash st =
     (if sPreviousHash \<noteq> None
      then st\<lparr>calls := calls st @ [History_getPreviousHash, Window_history_back]\<rparr>
      else st\<lparr>calls := calls st @
                  [History_getPreviousHash, UIComponent_getRouterFor (self this),
                   Router_navTo (RouterFor (self this)) ''appHome'' (Some []) (Some [])
                     (Some True)]\<rparr>)
   \<and> onNavBack this (Some []) st =
       st\<lparr>calls := calls st @ [History_getPreviousHash, Window_history_back]\<rparr>
   \<and> ''appHome'' \<notin> set (map routeName manifest_routes)"
  by (simp add: onNavBack_def getRouter_def called_def manifest_routes_def)

section \<open>Properties of the page history\<close>

lemma in_history_iff:
  "list_ex (\<lambda>h. intent h = i) xs = (i \<in> set (map intent xs))"
  by (induction xs) auto

lemma addHistoryEntry_keeps_distinct:
  "distinct (map intent (aHistoryEntries hs)) \<Longrightarrow>
   distinct (map intent (aHistoryEntries (addHistoryEntry oEntry bReset hs)))"
  by (simp add: addHistoryEntry_def Let_def in_history_iff)

lemma onShellUIService_keeps_entries:
  "aHistoryEntries (onShellUIService hs) = aHistoryEntries hs"
  by (simp add: onShellUIService_def)

lemma runHistory_keeps_distinct:
  "distinct (map intent (aHistoryEntries hs)) \<Longrightarrow>
   distinct (map intent (aHistoryEntries (runHistory ops hs)))"
proof (induction ops arbitrary: hs)
  case Nil
  then show ?case by simp
next
  case (Cons op ops)
  show ?case
  proof (cases op)
    case (Add oEntry bReset)
    with Cons show ?thesis by (simp add: addHistoryEntry_keeps_distinct)
  next
    case ServiceResolved
    with Cons show ?thesis by (simp add: onShellUIService_keeps_entries)
  qed
qed

text \<open>
  C8. Whatever calls of \<open>addHistoryEntry\<close> and resolved service promises came before,
  no two entries of the array have the same intent. A call empties the array first when
  \<open>bReset\<close> is set; then, if no entry of the array has the intent of \<open>oEntry\<close>, it
  appends \<open>oEntry\<close> and asks for the service once, and otherwise leaves the array as it
  is and does not ask. A resolved service promise hands the whole array to
  \<open>setHierarchy\<close>.
\<close>

theorem addHistoryEntry_distinct_intents:
  "distinct (map intent (aHistoryEntries (runHistory ops initialHistory)))
   \<and> addHistoryEntry oEntry bReset hs =
       (let kept = (if bReset then [] else aHistoryEntries hs) in
        if intent oEntry \<in> set (map intent kept)
        then hs\<lparr>aHistoryEntries := kept\<rparr>
        else hs\<lparr>aHistoryEntries := kept @ [oEntry],
                servicePending := Suc (servicePending hs)\<rparr>)
   \<and> onShellUIService (hs\<lparr>servicePending := Suc n\<rparr>) =
       hs\<lparr>servicePending := n, hierarchies := hierarchies hs @ [aHistoryEntries hs]\<rparr>"
proof -
  have "distinct (map intent (aHistoryEntries initialHistory))"
    by (simp add: initialHistory_def)
  then have a: "distinct (map intent (aHistoryEntries (runHistory ops initialHistory)))"
    by (rule runHistory_keeps_distinct)
  have b: "addHistoryEntry oEntry bReset hs =
       (let kept = (if bReset then [] else aHistoryEntries hs) in
        if intent oEntry \<in> set (map intent kept)
        then hs\<lparr>aHistoryEntries := kept\<rparr>
        else hs\<lparr>aHistoryEntries := kept @ [oEntry],
                servicePending := Suc (servicePending hs)\<rparr>)"
    by (simp add: addHistoryEntry_def Let_def in_history_iff)
  have c: "onShellUIService (hs\<lparr>servicePending := Suc n\<rparr>) =
       hs\<lparr>servicePending := n, hierarchies := hierarchies hs @ [aHistoryEntries hs]\<rparr>"
    by (simp add: onShellUIService_def)
  from a b c show ?thesis by blast
qed

section \<open>Registry lookups and updates\<close>

lemma entry_overwritten [simp]:
  "(e::registry_entry)\<lparr>fragment := f, controller := c\<rparr> = \<lparr>fragment = f, controller = c\<rparr>"
  by (cases e) simp

lemma lookup_store [simp]:
  "lookupFragment (storeFragment k e st) k' = (if k' = k then Some e else lookupFragment st k')"
  by (simp add: lookupFragment_def storeFragment_def update_conv')

lemma lookup_called [simp]: "lookupFragment (called c st) k = lookupFragment st k"
  by (simp add: lookupFragment_def called_def)

lemma store_store [simp]: "storeFragment k e (storeFragment k e' st) = storeFragment k e st"
  by (simp add: storeFragment_def)

lemma store_called [simp]: "storeFragment k e (called c st) = called c (storeFragment k e st)"
  by (simp add: storeFragment_def called_def)

section \<open>The steps of a first call of openDialog\<close>

lemma controllerSettled_first:
  assumes "lookupFragment st (rqId rq) = Some e"
  shows "controllerSettled rq outcome st =
     Inr (called (Sap_ui_require ''sap/ui/core/Fragment'')
            (storeFragment (rqId rq) \<lparr>fragment = FUndefined, controller = CUndefined\<rparr> st),
          RequirePending rq (Some (settledController (rqThis rq) outcome)))"
  using assms
  by (cases outcome)
     (simp_all add: controllerSettled_def onControllerFailed_def onControllerCreated_def
        setController_def createDialogFragment_def settledController_def)

lemma onFragmentLoaded_closed:
  assumes "lookupFragment st (rqId rq) = Some e"
  shows "onFragmentLoaded rq (Some c) d st =
     (if c = self (rqThis rq) \<or> hasOnBeforeShow st c
      then Inr (st\<lparr>fragments := AList.update (rqId rq)
                       \<lparr>fragment = FLoaded d, controller = CRef c\<rparr> (fragments st),
                  calls := calls st @ [View_addDependent (viewId (view (rqThis rq))) d]
                     @ setModelCalls d (rqModel rq) (rqUpdateModelAlways rq)
                     @ beforeShowCalls (rqThis rq) c d (rqCallback rq) (rqData rq)
                     @ [SetTimeout_open d 100]\<rparr>, OpenPending d)
      else Inl (TypeError,
                st\<lparr>fragments := AList.update (rqId rq)
                       \<lparr>fragment = FLoaded d, controller = CRef c\<rparr> (fragments st),
                  calls := calls st @ [View_addDependent (viewId (view (rqThis rq))) d]
                     @ setModelCalls d (rqModel rq) (rqUpdateModelAlways rq)\<rparr>))"
  using assms
  by (auto simp add: onFragmentLoaded_def setFragment_def setController_def setModelCalls_def
        beforeShowCalls_def callOnBeforeShow_def called_def storeFragment_def
        lookupFragment_def update_conv'
        split: option.splits bool.splits)

lemma openDialog_first:
  assumes "dialogNames this sName0 = (sViewPath, sName)"
    and "lookupFragment st (fragmentKey this sName) = None"
  shows "openDialog this sName0 model upd cb data st =
     Inr (called (Controller_create (replace sViewPath ''view'' ''controller'' @ sName))
            (storeFragment (fragmentKey this sName) \<lparr>fragment = FEmpty, controller = CEmpty\<rparr> st),
          Some (ControllerPending
                 \<lparr>rqThis = this, rqId = fragmentKey this sName, rqName = sViewPath @ sName,
                  rqModel = model, rqUpdateModelAlways = upd,
                  rqCallback = cb, rqData = data\<rparr>))"
  using assms by (simp add: openDialog_def Let_def)

lemma openDialog_again:
  assumes "dialogNames this sName0 = (sViewPath, sName)"
    and "lookupFragment st (fragmentKey this sName) = Some e"
  shows "openDialog this sName0 model upd cb data st =
     (case fragment e of
        FLoaded d \<Rightarrow> Inr (openFragment d st, None)
      | FEmpty \<Rightarrow> Inl TypeError
      | FUndefined \<Rightarrow> Inl TypeError)"
  using assms by (simp add: openDialog_def)

lemma openDialogCompleted_first:
  assumes "dialogNames this sName0 = (sViewPath, sName)"
    and "lookupFragment st (fragmentKey this sName) = None"
  shows "openDialogCompleted this sName0 model upd cb data outcome d st =
     Inr (st\<lparr>fragments := AList.update (fragmentKey this sName)
                \<lparr>fragment = FLoaded d, controller = CRef (settledController this outcome)\<rparr>
                (fragments st),
             isOpen := (if showable this outcome st then (isOpen st)(d := True) else isOpen st),
             calls := calls st
                @ [Controller_create (replace sViewPath ''view'' ''controller'' @ sName),
                   Sap_ui_require ''sap/ui/core/Fragment'',
                   Fragment_load (fragmentKey this sName) (sViewPath @ sName)
                     (Some (settledController this outcome)),
                   View_addDependent (viewId (view this)) d]
                @ setModelCalls d model upd
                @ (if showable this outcome st
                   then beforeShowCalls this (settledController this outcome) d cb data
                        @ [SetTimeout_open d 100, Fragment_open d]
                   else []),
             unhandled := (if showable this outcome st then unhandled st
                           else unhandled st @ [TypeError])\<rparr>, None)"
proof -
  define fid where "fid = fragmentKey this sName"
  define rq where "rq = \<lparr>rqThis = this, rqId = fid, rqName = sViewPath @ sName,
                  rqModel = model, rqUpdateModelAlways = upd,
                  rqCallback = cb, rqData = data\<rparr>"
  define c where "c = settledController this outcome"
  define st1 where "st1 = called (Controller_create (replace sViewPath ''view'' ''controller'' @ sName))
            (storeFragment fid \<lparr>fragment = FEmpty, controller = CEmpty\<rparr> st)"
  define st2 where "st2 = called (Sap_ui_require ''sap/ui/core/Fragment'')
            (storeFragment fid \<lparr>fragment = FUndefined, controller = CUndefined\<rparr> st1)"
  define st3 where "st3 = called (Fragment_load fid (sViewPath @ sName) (Some c)) st2"
  have rq_simps: "rqId rq = fid" "rqThis rq = this" "rqName rq = sViewPath @ sName"
    "rqModel rq = model" "rqUpdateModelAlways rq = upd" "rqCallback rq = cb" "rqData rq = data"
    by (simp_all add: rq_def)
  have a: "openDialog this sName0 model upd cb data st = Inr (st1, Some (ControllerPending rq))"
    using openDialog_first [OF assms] by (simp add: st1_def rq_def fid_def)
  have "lookupFragment st1 (rqId rq) = Some \<lparr>fragment = FEmpty, controller = CEmpty\<rparr>"
    by (simp add: st1_def rq_simps)
  from controllerSettled_first [OF this, of outcome]
  have b: "controllerSettled rq outcome st1 = Inr (st2, RequirePending rq (Some c))"
    by (simp add: st2_def rq_simps c_def)
  have cl: "onFragmentClass rq (Some c) st2 = (st3, LoadPending rq (Some c))"
    by (simp add: onFragmentClass_def st3_def rq_simps)
  have l3: "lookupFragment st3 (rqId rq) = Some \<lparr>fragment = FUndefined, controller = CUndefined\<rparr>"
    by (simp add: st3_def st2_def rq_simps)
  have h3: "hasOnBeforeShow st3 = hasOnBeforeShow st"
    by (simp add: st3_def st2_def st1_def called_def storeFragment_def)
  have sh: "showable this outcome st = (c = self (rqThis rq) \<or> hasOnBeforeShow st3 c)"
    by (simp add: showable_def c_def rq_simps h3)
  have run: "openDialogCompleted this sName0 model upd cb data outcome d st =
      Inr (resumeAll (Suc 0) outcome d
             (resume outcome d (LoadPending rq (Some c)) st3))"
    by (simp add: openDialogCompleted_def a b cl)
  show ?thesis
  proof (cases "showable this outcome st")
    case True
    with sh onFragmentLoaded_closed [OF l3, of c d]
    have "resume outcome d (LoadPending rq (Some c)) st3 =
        (st3\<lparr>fragments := AList.update (rqId rq)
                 \<lparr>fragment = FLoaded d, controller = CRef c\<rparr> (fragments st3),
             calls := calls st3 @ [View_addDependent (viewId (view (rqThis rq))) d]
                @ setModelCalls d (rqModel rq) (rqUpdateModelAlways rq)
                @ beforeShowCalls (rqThis rq) c d (rqCallback rq) (rqData rq)
                @ [SetTimeout_open d 100]\<rparr>, Some (OpenPending d))"
      by simp
    with True show ?thesis
      unfolding run
      by (simp add: onTimeout_def openFragment_def rq_simps st3_def st2_def st1_def
            called_def storeFragment_def fid_def c_def)
  next
    case False
    with sh onFragmentLoaded_closed [OF l3, of c d]
    have "resume outcome d (LoadPending rq (Some c)) st3 =
        (raised TypeError
           (st3\<lparr>fragments := AList.update (rqId rq)
                 \<lparr>fragment = FLoaded d, controller = CRef c\<rparr> (fragments st3),
             calls := calls st3 @ [View_addDependent (viewId (view (rqThis rq))) d]
                @ setModelCalls d (rqModel rq) (rqUpdateModelAlways rq)\<rparr>), None)"
      by simp
    with False show ?thesis
      unfolding run
      by (simp add: raised_def rq_simps st3_def st2_def st1_def
            called_def storeFragment_def fid_def c_def)
  qed
qed

section \<open>Properties of closeFragments\<close>

lemma closedFragments_append [simp]:
  "closedFragments (xs @ ys) = closedFragments xs @ closedFragments ys"
  by (induction xs rule: closedFragments.induct) auto

lemma lookup_closeFragment [simp]: "lookupFragment (closeFragment d st) k = lookupFragment st k"
  by (simp add: lookupFragment_def closeFragment_def called_def)

lemma closeEach_spec:
  assumes "set ks \<subseteq> fst ` set (fragments st)"
  shows "\<exists>st' cs. closeEach ks st = Inr st' \<and> fragments st' = fragments st
           \<and> hasIsOpen st' = hasIsOpen st
           \<and> (\<forall>d. isOpen st' d = (isOpen st d \<and> d \<notin> targets ks st))
           \<and> calls st' = calls st @ cs \<and> list_all isOpenOrClose cs
           \<and> set (closedFragments cs) = targets ks st"
  using assms
proof (induction ks arbitrary: st)
  case Nil
  show ?case by (simp add: targets_def)
next
  case (Cons k ks)
  from Cons.prems have "k \<in> fst ` set (fragments st)" by simp
  then have "map_of (fragments st) k \<noteq> None"
    by (simp add: map_of_eq_None_iff)
  then obtain e where e: "lookupFragment st k = Some e"
    by (auto simp add: lookupFragment_def)
  from Cons.prems have sub: "set ks \<subseteq> fst ` set (fragments st)" by simp
  consider (skip) "\<forall>d. fragment e = FLoaded d \<longrightarrow> \<not> hasIsOpen st d"
    | (shut) d where "fragment e = FLoaded d" "hasIsOpen st d" "\<not> isOpen st d"
    | (opened) d where "fragment e = FLoaded d" "hasIsOpen st d" "isOpen st d"
    by (cases "fragment e") auto
  then show ?case
  proof cases
    case skip
    then have step: "closeEach (k # ks) st = closeEach ks st"
      using e by (cases "fragment e") auto
    from skip e have "targets (k # ks) st = targets ks st"
      by (auto simp add: targets_def)
    with Cons.IH [OF sub] step show ?thesis by (simp del: closeEach.simps)
  next
    case shut
    define st1 where "st1 = called (Fragment_isOpen d) st"
    have step: "closeEach (k # ks) st = closeEach ks st1"
      using e shut by (simp add: st1_def called_def)
    have same: "fragments st1 = fragments st" "hasIsOpen st1 = hasIsOpen st"
      "isOpen st1 = isOpen st" "calls st1 = calls st @ [Fragment_isOpen d]"
      "\<And>k. lookupFragment st1 k = lookupFragment st k"
      by (simp_all add: st1_def called_def lookupFragment_def)
    have t1: "targets ks st1 = targets ks st"
      by (simp add: targets_def same)
    from shut e have t: "targets (k # ks) st = targets ks st"
      by (auto simp add: targets_def)
    from sub have "set ks \<subseteq> fst ` set (fragments st1)" by (simp add: same)
    from Cons.IH [OF this] obtain st' cs where
      r: "closeEach ks st1 = Inr st'" "fragments st' = fragments st1"
         "hasIsOpen st' = hasIsOpen st1"
         "\<forall>d. isOpen st' d = (isOpen st1 d \<and> d \<notin> targets ks st1)"
         "calls st' = calls st1 @ cs" "list_all isOpenOrClose cs"
         "set (closedFragments cs) = targets ks st1"
      by blast
    from step r(1) have res: "closeEach (k # ks) st = Inr st'" by (simp only:)
    show ?thesis
      apply (rule exI [of _ st'])
      apply (rule exI [of _ "Fragment_isOpen d # cs"])
      using r(2-) res by (simp add: same t t1 del: closeEach.simps)
  next
    case opened
    define st1 where "st1 = closeFragment d (called (Fragment_isOpen d) st)"
    have step: "closeEach (k # ks) st = closeEach ks st1"
      using e opened by (simp add: st1_def called_def)
    have same: "fragments st1 = fragments st" "hasIsOpen st1 = hasIsOpen st"
      "isOpen st1 = (isOpen st)(d := False)"
      "calls st1 = calls st @ [Fragment_isOpen d, Fragment_close d]"
      "\<And>k. lookupFragment st1 k = lookupFragment st k"
      by (simp_all add: st1_def called_def closeFragment_def lookupFragment_def)
    have t1: "targets ks st1 = targets ks st - {d}"
      by (auto simp add: targets_def same)
    from opened e have t: "targets (k # ks) st = insert d (targets ks st)"
      by (auto simp add: targets_def)
    from sub have "set ks \<subseteq> fst ` set (fragments st1)" by (simp add: same)
    from Cons.IH [OF this] obtain st' cs where
      r: "closeEach ks st1 = Inr st'" "fragments st' = fragments st1"
         "hasIsOpen st' = hasIsOpen st1"
         "\<forall>d. isOpen st' d = (isOpen st1 d \<and> d \<notin> targets ks st1)"
         "calls st' = calls st1 @ cs" "list_all isOpenOrClose cs"
         "set (closedFragments cs) = targets ks st1"
      by blast
    from step r(1) have res: "closeEach (k # ks) st = Inr st'" by (simp only:)
    show ?thesis
      apply (rule exI [of _ st'])
      apply (rule exI [of _ "Fragment_isOpen d # Fragment_close d # cs"])
      using r(2-) res opened by (auto simp add: same t t1 simp del: closeEach.simps)
  qed
qed

lemma registeredOpen_targets: "registeredOpen st d = (d \<in> targets (map fst (fragments st)) st)"
  by (auto simp add: registeredOpen_def targets_def list_ex_iff split: option.splits)

text \<open>
  C4. \<open>closeFragments\<close> never raises. It closes exactly the loaded fragments of the one
  registry that have an \<open>isOpen\<close> method answering true, whichever controller
  registered them and whichever controller is asked; entries whose fragment is the
  placeholder or \<open>undefined\<close> are passed over. The registry is left as it was, every
  other fragment is as open as before, and the only calls made are \<open>isOpen\<close> and
  \<open>close\<close>.
\<close>

theorem closeFragments_closes_open:
  "\<exists>st'. closeFragments this st = Inr st'
      \<and> fragments st' = fragments st
      \<and> hasIsOpen st' = hasIsOpen st
      \<and> (\<forall>d. isOpen st' d = (isOpen st d \<and> \<not> registeredOpen st d))
      \<and> calls st' = calls st @ newCalls st st'
      \<and> list_all isOpenOrClose (newCalls st st')
      \<and> (\<forall>d. (d \<in> set (closedFragments (newCalls st st'))) = registeredOpen st d)
      \<and> closeFragments other st = closeFragments this st"
proof -
  have "set (map fst (fragments st)) \<subseteq> fst ` set (fragments st)" by simp
  from closeEach_spec [OF this] obtain st' cs where
    r: "closeEach (map fst (fragments st)) st = Inr st'" "fragments st' = fragments st"
       "hasIsOpen st' = hasIsOpen st"
       "\<forall>d. isOpen st' d = (isOpen st d \<and> d \<notin> targets (map fst (fragments st)) st)"
       "calls st' = calls st @ cs" "list_all isOpenOrClose cs"
       "set (closedFragments cs) = targets (map fst (fragments st)) st"
    by blast
  from r(5) have n: "newCalls st st' = cs" by (simp add: newCalls_def)
  show ?thesis
    apply (rule exI [of _ st'])
    using r by (simp add: closeFragments_def n registeredOpen_targets)
qed

theorem closeFragments_closes_open_witness:
  "closeFragments \<lparr>self = 0, view = \<lparr>viewId = ''v'', viewName = ''app.view.Home'',
        viewModels = (\<lambda>n. None)\<rparr>\<rparr>
     \<lparr>fragments = [(''v-A'', \<lparr>fragment = FEmpty, controller = CEmpty\<rparr>),
                   (''w-B'', \<lparr>fragment = FLoaded 3, controller = CRef 1\<rparr>),
                   (''v-C'', \<lparr>fragment = FUndefined, controller = CUndefined\<rparr>),
                   (''v-D'', \<lparr>fragment = FLoaded 4, controller = CRef 0\<rparr>)],
      isOpen = (\<lambda>d. d = 3), hasIsOpen = (\<lambda>d. True), calls = [],
      hasOnBeforeShow = (\<lambda>c. True), unhandled = []\<rparr>
   = Inr \<lparr>fragments = [(''v-A'', \<lparr>fragment = FEmpty, controller = CEmpty\<rparr>),
                   (''w-B'', \<lparr>fragment = FLoaded 3, controller = CRef 1\<rparr>),
                   (''v-C'', \<lparr>fragment = FUndefined, controller = CUndefined\<rparr>),
                   (''v-D'', \<lparr>fragment = FLoaded 4, controller = CRef 0\<rparr>)],
      isOpen = (\<lambda>d. False), hasIsOpen = (\<lambda>d. True),
      calls = [Fragment_isOpen 3, Fragment_close 3, Fragment_isOpen 4],
      hasOnBeforeShow = (\<lambda>c. True), unhandled = []\<rparr>"
proof -
  define c :: base_controller where "c = \<lparr>self = 0, view = \<lparr>viewId = ''v'',
        viewName = ''app.view.Home'', viewModels = (\<lambda>n. None)\<rparr>\<rparr>"
  define s :: app_state where "s = \<lparr>fragments =
        [(''v-A'', \<lparr>fragment = FEmpty, controller = CEmpty\<rparr>),
         (''w-B'', \<lparr>fragment = FLoaded 3, controller = CRef 1\<rparr>),
         (''v-C'', \<lparr>fragment = FUndefined, controller = CUndefined\<rparr>),
         (''v-D'', \<lparr>fragment = FLoaded 4, controller = CRef 0\<rparr>)],
      isOpen = (\<lambda>d. d = 3), hasIsOpen = (\<lambda>d. True), calls = [],
      hasOnBeforeShow = (\<lambda>c. True), unhandled = []\<rparr>"
  from closeFragments_closes_open [of c s c] obtain st' where
    r: "closeFragments c s = Inr st'" "fragments st' = fragments s"
       "hasIsOpen st' = hasIsOpen s"
       "\<forall>d. isOpen st' d = (isOpen s d \<and> \<not> registeredOpen s d)"
       "calls st' = calls s @ newCalls s st'"
       "\<forall>d. (d \<in> set (closedFragments (newCalls s st'))) = registeredOpen s d"
    by blast
  have "closeFragments c s = Inr (s\<lparr>isOpen := (\<lambda>d. False),
      calls := [Fragment_isOpen 3, Fragment_close 3, Fragment_isOpen 4]\<rparr>)"
    by (simp add: closeFragments_def lookupFragment_def called_def closeFragment_def
          fun_eq_iff s_def)
  with r(1) have "st' = s\<lparr>isOpen := (\<lambda>d. False),
      calls := [Fragment_isOpen 3, Fragment_close 3, Fragment_isOpen 4]\<rparr>" by simp
  with r(1) show ?thesis by (simp add: c_def s_def)
qed

section \<open>Fragment names, paths and keys\<close>

lemma segments_decompose:
  "CHR ''.'' \<in> set s \<Longrightarrow> s = withoutLastSegment s @ ''.'' @ lastSegment s"
proof -
  assume "CHR ''.'' \<in> set s"
  then have "dropWhile (\<lambda>c. c \<noteq> CHR ''.'') (rev s) \<noteq> []" by (simp add: dropWhile_eq_Nil_conv) 
  then obtain r where r: "dropWhile (\<lambda>c. c \<noteq> CHR ''.'') (rev s) = CHR ''.'' # r"
    using hd_dropWhile [of "\<lambda>c. c \<noteq> CHR ''.''" "rev s"]
    by (cases "dropWhile (\<lambda>c. c \<noteq> CHR ''.'') (rev s)") auto
  have "rev s = takeWhile (\<lambda>c. c \<noteq> CHR ''.'') (rev s) @ dropWhile (\<lambda>c. c \<noteq> CHR ''.'') (rev s)"
    by simp
  then have "s = rev (dropWhile (\<lambda>c. c \<noteq> CHR ''.'') (rev s)) @ rev (takeWhile (\<lambda>c. c \<noteq> CHR ''.'') (rev s))"
    by (metis rev_append rev_rev_ident)
  then show ?thesis by (simp add: r withoutLastSegment_def lastSegment_def)
qed

lemma lastSegment_no_dot: "CHR ''.'' \<notin> set (lastSegment s)"
  by (auto simp add: lastSegment_def dest: set_takeWhileD)

lemma dropWhile_absent: "c \<notin> set xs \<Longrightarrow> dropWhile (\<lambda>x. x \<noteq> c) xs = []"
  by (induction xs) auto

lemma split_nonempty [simp]: "split s c \<noteq> []"
  by (induction s) (auto split: list.splits)

lemma split_no_sep: "c \<notin> set s \<Longrightarrow> split s c = [s]"
  by (induction s) auto

lemma split_append: "c \<notin> set C \<Longrightarrow> split (P @ c # C) c = split P c @ [C]"
  by (induction P) (auto simp add: split_no_sep split: list.splits)

lemma join_Cons: "xs \<noteq> [] \<Longrightarrow> join (x # xs) sep = x @ sep @ join xs sep"
  by (cases xs) auto

lemma join_Cons_Cons: "join ((a # x) # xs) sep = a # join (x # xs) sep"
  by (cases xs) auto

lemma join_split: "join (split s c) [c] = s"
  by (induction s) (auto simp add: join_Cons join_Cons_Cons split: list.splits)

lemma startsWith_single [simp]: "startsWith s [c] = (s \<noteq> [] \<and> hd s = c)"
  by (cases s) auto

lemma lastIndexOf_absent: "c \<notin> set s \<Longrightarrow> lastIndexOf s [c] = - 1"
  by (induction s) (auto simp add: Let_def)

lemma lastIndexOf_append: "c \<notin> set C \<Longrightarrow> lastIndexOf (P @ c # C) [c] = int (length P)"
  by (induction P) (auto simp add: Let_def lastIndexOf_absent)

lemma indexOf_single: "indexOf s [c] = (if c \<in> set s then int (length (takeWhile (\<lambda>x. x \<noteq> c) s)) else - 1)"
  by (induction s) (auto simp add: Let_def)

lemma indexOf_pos_iff: "0 < indexOf s [c] \<longleftrightarrow> c \<in> set s \<and> hd s \<noteq> c"
  by (cases s) (auto simp add: indexOf_single)

lemma substr_lastSegment:
  assumes "CHR ''.'' \<in> set s"
  shows "substr s (lastIndexOf s ''.'' + 1) = lastSegment s"
proof -
  from segments_decompose [OF assms]
  have d: "s = withoutLastSegment s @ CHR ''.'' # lastSegment s" by simp
  have "lastIndexOf (withoutLastSegment s @ CHR ''.'' # lastSegment s) ''.'' =
      int (length (withoutLastSegment s))"
    by (rule lastIndexOf_append) (rule lastSegment_no_dot)
  with d have "lastIndexOf s ''.'' = int (length (withoutLastSegment s))" by simp
  then have "substr s (lastIndexOf s ''.'' + 1) = drop (Suc (length (withoutLastSegment s))) s"
    by (simp add: substr_def nat_add_distrib)
  also have "\<dots> = drop (Suc (length (withoutLastSegment s)))
      (withoutLastSegment s @ CHR ''.'' # lastSegment s)"
    using d by simp
  also have "\<dots> = lastSegment s" by simp
  finally show ?thesis .
qed

lemma join_pop_split: "join (pop (split s CHR ''.'')) ''.'' = withoutLastSegment s"
proof (cases "CHR ''.'' \<in> set s")
  case True
  from segments_decompose [OF True]
  have d: "s = withoutLastSegment s @ CHR ''.'' # lastSegment s" by simp
  have "split (withoutLastSegment s @ CHR ''.'' # lastSegment s) CHR ''.'' =
      split (withoutLastSegment s) CHR ''.'' @ [lastSegment s]"
    by (rule split_append) (rule lastSegment_no_dot)
  with d have "pop (split s CHR ''.'') = split (withoutLastSegment s) CHR ''.''"
    by (simp add: pop_def)
  then show ?thesis by (simp add: join_split)
next
  case False
  then have "withoutLastSegment s = []"
    by (simp add: withoutLastSegment_def dropWhile_absent)
  with False show ?thesis by (simp add: split_no_sep pop_def)
qed

lemma dialogNames_eq:
  "dialogNames this sName =
     (let p = (if 0 < indexOf sName ''.'' then withoutLastSegment sName
               else withoutLastSegment (viewName (view this)))
      in (if 0 < indexOf (toLowerCase p) ''fragments'' then p @ ''.'' else p @ ''.fragments.'',
          if 0 < indexOf sName ''.'' then lastSegment sName else sName))"
proof (cases "0 < indexOf sName ''.''")
  case True
  then have "CHR ''.'' \<in> set sName" by (simp add: indexOf_pos_iff)
  with True show ?thesis
    by (simp add: dialogNames_def join_pop_split substr_lastSegment Let_def)
next
  case False
  then show ?thesis by (simp add: dialogNames_def join_pop_split Let_def)
qed

lemma indexOf_nonneg_iff: "(0 \<le> indexOf s p) = (\<exists>i\<le>length s. startsWith (drop i s) p)"
proof (induction s)
  case Nil
  show ?case by (cases p) auto
next
  case (Cons c cs)
  have "(\<exists>i\<le>length (c # cs). startsWith (drop i (c # cs)) p) =
        (startsWith (c # cs) p \<or> (\<exists>j\<le>length cs. startsWith (drop j cs) p))"
    (is "?L = ?R")
  proof
    assume ?L
    then obtain i where "i \<le> length (c # cs)" "startsWith (drop i (c # cs)) p" by blast
    then show ?R by (cases i) auto
  next
    assume ?R
    then show ?L
    proof
      assume "startsWith (c # cs) p"
      then have "0 \<le> length (c # cs) \<and> startsWith (drop 0 (c # cs)) p" by simp
      then show ?L by blast
    next
      assume "\<exists>j\<le>length cs. startsWith (drop j cs) p"
      then obtain j where "j \<le> length cs" "startsWith (drop j cs) p" by blast
      then have "Suc j \<le> length (c # cs) \<and> startsWith (drop (Suc j) (c # cs)) p" by simp
      then show ?L by blast
    qed
  qed
  with Cons show ?case by (auto simp add: Let_def simp del: startsWith.simps)
qed

lemma indexOf_pos_general:
  "(0 < indexOf s p) =
     (\<not> startsWith s p \<and> (\<exists>i. 0 < i \<and> i \<le> length s \<and> startsWith (drop i s) p))"
proof (cases s)
  case Nil
  then show ?thesis by (cases p) auto
next
  case (Cons c cs)
  have "(\<exists>i. 0 < i \<and> i \<le> length (c # cs) \<and> startsWith (drop i (c # cs)) p) =
        (\<exists>j\<le>length cs. startsWith (drop j cs) p)" (is "?L = ?R")
  proof
    assume ?L
    then obtain i where "0 < i" "i \<le> length (c # cs)" "startsWith (drop i (c # cs)) p"
      by blast
    then show ?R by (cases i) auto
  next
    assume ?R
    then obtain j where "j \<le> length cs" "startsWith (drop j cs) p" by blast
    then have "0 < Suc j \<and> Suc j \<le> length (c # cs) \<and> startsWith (drop (Suc j) (c # cs)) p"
      by simp
    then show ?L by blast
  qed
  moreover have "(0 < indexOf (c # cs) p) = (\<not> startsWith (c # cs) p \<and> 0 \<le> indexOf cs p)"
    by (auto simp add: Let_def simp del: startsWith.simps)
  ultimately show ?thesis by (simp add: Cons indexOf_nonneg_iff del: startsWith.simps indexOf.simps)
qed

lemma containsFragments_iff:
  "containsFragments p =
     (\<exists>i. 0 < i \<and> i \<le> length p \<and> startsWith (drop i (toLowerCase p)) ''fragments'')"
proof -
  have last: "\<not> startsWith (drop (length p) (toLowerCase p)) ''fragments''"
    by (simp add: toLowerCase_def)
  have "(0 < i \<and> i \<le> length p \<and> startsWith (drop i (toLowerCase p)) ''fragments'') =
      (i \<in> set [1 ..< length p] \<and> startsWith (drop i (toLowerCase p)) ''fragments'')" for i
    using last by (cases "i = length p") (auto simp del: startsWith.simps)
  then show ?thesis by (simp add: containsFragments_def list_ex_iff Bex_def del: startsWith.simps)
qed

lemma fragments_rule:
  "(0 < indexOf (toLowerCase p) ''fragments'') =
     (containsFragments p \<and> \<not> startsWith (toLowerCase p) ''fragments'')"
proof -
  have "length (toLowerCase p) = length p" by (simp add: toLowerCase_def)
  then show ?thesis
    unfolding indexOf_pos_general containsFragments_iff by (simp only: conj_commute)
qed

lemma dotted_iff: "dotted sName = (0 < indexOf sName ''.'')"
  by (auto simp add: dotted_def indexOf_pos_iff)

lemma dialogNames_amended:
  "dialogNames this sName = (sViewPath, sName') \<Longrightarrow>
   sViewPath @ sName' = amendedFragmentName this sName \<and>
   fragmentKey this sName' = amendedFragmentKey this sName"
  by (auto simp add: dialogNames_eq amendedFragmentName_def amendedFragmentKey_def
        fragmentKey_def Let_def fragments_rule [symmetric] dotted_iff
        simp del: startsWith.simps indexOf.simps)

section \<open>Properties of openDialog\<close>

lemma openDialogCompleted_result:
  "openDialogCompleted this sName model upd cb data outcome d st =
     (case lookupFragment st (amendedFragmentKey this sName) of
        None \<Rightarrow> Inr (createdState this sName model upd cb data outcome d st, None)
      | Some e \<Rightarrow>
          (case fragment e of
             FLoaded d' \<Rightarrow> Inr (openFragment d' st, None)
           | FEmpty \<Rightarrow> Inl TypeError
           | FUndefined \<Rightarrow> Inl TypeError))"
proof -
  obtain sViewPath sName' where n: "dialogNames this sName = (sViewPath, sName')"
    by (cases "dialogNames this sName")
  note a = dialogNames_amended [OF n]
  show ?thesis
  proof (cases "lookupFragment st (amendedFragmentKey this sName)")
    case None
    with a have "lookupFragment st (fragmentKey this sName') = None" by simp
    from openDialogCompleted_first [OF n this, of model upd cb data outcome d] a None n
    show ?thesis by (simp add: createdState_def creationCalls_def)
  next
    case (Some e)
    with a have "lookupFragment st (fragmentKey this sName') = Some e" by simp
    from openDialog_again [OF n this, of model upd cb data] Some
    show ?thesis by (cases "fragment e") (simp_all add: openDialogCompleted_def)
  qed
qed

lemma newCalls_created [simp]:
  "newCalls st (createdState this sName model upd cb data outcome d st) =
     creationCalls this sName model upd cb data outcome d st"
  by (simp add: newCalls_def createdState_def)

lemma newCalls_opened [simp]: "newCalls st (openFragment d st) = [Fragment_open d]"
  by (simp add: newCalls_def openFragment_def called_def)

lemma lookup_created:
  "lookupFragment (createdState this sName model upd cb data outcome d st) k =
     (if k = amendedFragmentKey this sName
      then Some \<lparr>fragment = FLoaded d, controller = CRef (settledController this outcome)\<rparr>
      else lookupFragment st k)"
  by (simp add: lookupFragment_def createdState_def update_conv')

lemma isOpen_created:
  "isOpen (createdState this sName model upd cb data outcome d st) =
     (if showable this outcome st then (isOpen st)(d := True) else isOpen st)"
  by (simp add: createdState_def)

lemma unhandled_created:
  "unhandled (createdState this sName model upd cb data outcome d st) =
     (if showable this outcome st then unhandled st else unhandled st @ [TypeError])"
  by (simp add: createdState_def)

lemma lookup_opened [simp]: "lookupFragment (openFragment d st) k = lookupFragment st k"
  by (simp add: lookupFragment_def openFragment_def called_def)

lemma modelsSet_append [simp]: "modelsSet (xs @ ys) = modelsSet xs @ modelsSet ys"
  by (induction xs rule: modelsSet.induct) auto

lemma loadedNames_append [simp]: "loadedNames (xs @ ys) = loadedNames xs @ loadedNames ys"
  by (induction xs rule: loadedNames.induct) auto

lemma createdNames_append [simp]: "createdNames (xs @ ys) = createdNames xs @ createdNames ys"
  by (induction xs rule: createdNames.induct) auto

lemma modelsSet_setModelCalls:
  "modelsSet (setModelCalls d model upd) =
     (case (model, upd) of (Some m, Some True) \<Rightarrow> [(d, m)] | _ \<Rightarrow> [])"
  by (simp add: setModelCalls_def split: option.splits bool.splits)

lemma modelsSet_creationCalls:
  "modelsSet (creationCalls this sName model upd cb data outcome d st) =
     (case (model, upd) of (Some m, Some True) \<Rightarrow> [(d, m)] | _ \<Rightarrow> [])"
  by (simp add: creationCalls_def modelsSet_setModelCalls beforeShowCalls_def)

lemma loadedNames_creationCalls:
  "loadedNames (creationCalls this sName model upd cb data outcome d st) =
     [amendedFragmentName this sName]"
  by (simp add: creationCalls_def setModelCalls_def beforeShowCalls_def
        split: option.splits bool.splits)

lemma createdNames_creationCalls:
  "createdNames (creationCalls this sName model upd cb data outcome d st) =
     [replace (fst (dialogNames this sName)) ''view'' ''controller''
        @ snd (dialogNames this sName)]"
  by (simp add: creationCalls_def setModelCalls_def beforeShowCalls_def
        split: option.splits bool.splits)

text \<open>
  C3, amended. A first call of \<open>openDialog\<close> loads one fragment. Its name is \<open>P\<close>, a
  dot and \<open>C\<close>: for a name whose first \<open>.\<close> is at a position greater than 0, \<open>C\<close> is
  what follows the last \<open>.\<close> of the name and \<open>P\<close> the name without that segment; for
  every other name (no \<open>.\<close>, or one at position 0) \<open>C\<close> is the whole name and \<open>P\<close>
  the view's name without its last segment. \<open>.fragments\<close> is appended to \<open>P\<close> unless
  \<open>P\<close>, in lower case, contains \<open>fragments\<close> at an index greater than 0 and does not
  begin with it.
\<close>

theorem openDialog_loads_fragment:
  assumes "lookupFragment st (amendedFragmentKey this sName) = None"
  shows "\<exists>st'. openDialogCompleted this sName model upd cb data outcome d st = Inr (st', None)
           \<and> loadedNames (newCalls st st') = [amendedFragmentName this sName]"
  using assms by (simp add: openDialogCompleted_result loadedNames_creationCalls)

theorem openDialog_loads_fragment_witness:
  "\<exists>st'. openDialogCompleted homeController ''lib.view.Confirm'' None None None None None 9
            freshState = Inr (st', None)
     \<and> loadedNames (newCalls freshState st') = [''lib.view.fragments.Confirm'']"
proof -
  have absent:
    "lookupFragment freshState (amendedFragmentKey homeController ''lib.view.Confirm'') = None"
    by (simp add: lookupFragment_def freshState_def)
  have name:
    "amendedFragmentName homeController ''lib.view.Confirm'' = ''lib.view.fragments.Confirm''"
    by code_simp
  from openDialog_loads_fragment [OF absent, of None None None None None 9]
  show ?thesis by (simp only: name)
qed

text \<open>
  C3 as worded fails for \<open>.a.b\<close>, which has a \<open>.\<close> at position 2 but its first at
  position 0, and for \<open>fragments.fragments.X\<close>, whose path contains \<open>fragments\<close> at
  index 10 but begins with it.
\<close>

theorem openDialog_loads_fragment_counterexample:
  "(case openDialogCompleted homeController ''.a.b'' None None None None None 9 freshState of
      Inl e \<Rightarrow> []
    | Inr (st', p) \<Rightarrow> loadedNames (newCalls freshState st'))
     = [''app.view.fragments..a.b'']
   \<and> specFragmentName homeController ''.a.b'' = ''.a.fragments.b''
   \<and> (case openDialogCompleted homeController ''.a.b'' None None None None None 9 freshState of
      Inl e \<Rightarrow> []
    | Inr (st', p) \<Rightarrow> loadedNames (newCalls freshState st'))
     \<noteq> [specFragmentName homeController ''.a.b'']
   \<and> (case openDialogCompleted homeController ''fragments.fragments.X''
             None None None None None 9 freshState of
      Inl e \<Rightarrow> []
    | Inr (st', p) \<Rightarrow> loadedNames (newCalls freshState st'))
     = [''fragments.fragments.fragments.X'']
   \<and> specFragmentName homeController ''fragments.fragments.X'' = ''fragments.fragments.X''
   \<and> (case openDialogCompleted homeController ''fragments.fragments.X''
             None None None None None 9 freshState of
      Inl e \<Rightarrow> []
    | Inr (st', p) \<Rightarrow> loadedNames (newCalls freshState st'))
     \<noteq> [specFragmentName homeController ''fragments.fragments.X'']"
  by code_simp

text \<open>
  C1, amended. The key of a fragment is the view's id, \<open>-\<close> and the last dot-segment of
  the name when the first \<open>.\<close> of the name is at a position greater than 0, the whole
  name otherwise. A call that finds no entry under the key creates the controller and
  loads the fragment, once each, and ends with the loaded fragment and its controller
  registered under the key, every other key as before. A call that finds an entry with a
  loaded fragment creates and loads nothing, leaves nothing pending and only calls
  \<open>open\<close> on the fragment of the entry.
\<close>

theorem openDialog_registers_once:
  "(lookupFragment st (amendedFragmentKey this sName) = None \<longrightarrow>
      (\<exists>st'. openDialogCompleted this sName model upd cb data outcome d st = Inr (st', None)
         \<and> lookupFragment st' (amendedFragmentKey this sName) =
             Some \<lparr>fragment = FLoaded d, controller = CRef (settledController this outcome)\<rparr>
         \<and> (\<forall>k. k \<noteq> amendedFragmentKey this sName \<longrightarrow>
                lookupFragment st' k = lookupFragment st k)
         \<and> createdNames (newCalls st st') =
             [replace (fst (dialogNames this sName)) ''view'' ''controller''
                @ snd (dialogNames this sName)]
         \<and> loadedNames (newCalls st st') = [amendedFragmentName this sName]))
   \<and> (lookupFragment st (amendedFragmentKey this sName) = Some e \<and> fragment e = FLoaded d' \<longrightarrow>
        openDialog this sName model upd cb data st =
          Inr (st\<lparr>isOpen := (isOpen st)(d' := True), calls := calls st @ [Fragment_open d']\<rparr>,
               None))"
proof (intro conjI impI)
  assume "lookupFragment st (amendedFragmentKey this sName) = None"
  then show "\<exists>st'. openDialogCompleted this sName model upd cb data outcome d st = Inr (st', None)
         \<and> lookupFragment st' (amendedFragmentKey this sName) =
             Some \<lparr>fragment = FLoaded d, controller = CRef (settledController this outcome)\<rparr>
         \<and> (\<forall>k. k \<noteq> amendedFragmentKey this sName \<longrightarrow>
                lookupFragment st' k = lookupFragment st k)
         \<and> createdNames (newCalls st st') =
             [replace (fst (dialogNames this sName)) ''view'' ''controller''
                @ snd (dialogNames this sName)]
         \<and> loadedNames (newCalls st st') = [amendedFragmentName this sName]"
    by (simp add: openDialogCompleted_result lookup_created loadedNames_creationCalls
          createdNames_creationCalls)
next
  assume a: "lookupFragment st (amendedFragmentKey this sName) = Some e \<and> fragment e = FLoaded d'"
  obtain sViewPath sName' where n: "dialogNames this sName = (sViewPath, sName')"
    by (cases "dialogNames this sName")
  from dialogNames_amended [OF n] a
  have "lookupFragment st (fragmentKey this sName') = Some e" by simp
  from openDialog_again [OF n this, of model upd cb data] a
  show "openDialog this sName model upd cb data st =
          Inr (st\<lparr>isOpen := (isOpen st)(d' := True), calls := calls st @ [Fragment_open d']\<rparr>,
               None)"
    by (simp add: openFragment_def called_def)
qed

theorem openDialog_registers_once_witness:
  "(\<exists>st'. openDialogCompleted homeController ''lib.view.Confirm'' None None None None None 9
             freshState = Inr (st', None)
      \<and> lookupFragment st' ''v-Confirm'' = Some \<lparr>fragment = FLoaded 9, controller = CRef 0\<rparr>
      \<and> createdNames (newCalls freshState st') = [''lib.controller.fragments.Confirm'']
      \<and> loadedNames (newCalls freshState st') = [''lib.view.fragments.Confirm''])
   \<and> openDialog homeController ''lib.view.Confirm'' None None None None loadedState =
       Inr (loadedState\<lparr>isOpen := (isOpen loadedState)(9 := True),
                        calls := calls loadedState @ [Fragment_open 9]\<rparr>, None)"
proof -
  have key: "amendedFragmentKey homeController ''lib.view.Confirm'' = ''v-Confirm''"
    by code_simp
  have name:
    "amendedFragmentName homeController ''lib.view.Confirm'' = ''lib.view.fragments.Confirm''"
    by code_simp
  have ctl: "replace (fst (dialogNames homeController ''lib.view.Confirm'')) ''view'' ''controller''
      @ snd (dialogNames homeController ''lib.view.Confirm'') = ''lib.controller.fragments.Confirm''"
    by code_simp
  have own: "settledController homeController None = 0"
    by code_simp
  have absent: "lookupFragment freshState ''v-Confirm'' = None"
    by code_simp
  have present: "lookupFragment loadedState ''v-Confirm'' =
      Some \<lparr>fragment = FLoaded 9, controller = CRef 1\<rparr>
    \<and> fragment \<lparr>fragment = FLoaded 9, controller = CRef 1\<rparr> = FLoaded 9"
    by code_simp
  note t = openDialog_registers_once [where this = homeController and sName = "''lib.view.Confirm''"
      and model = None and upd = None and cb = None and data = None, unfolded key name ctl]
  from t [where st = freshState and outcome = None and d = 9, THEN conjunct1, rule_format, OF absent]
    t [where st = loadedState and d' = 9, THEN conjunct2, rule_format, OF present]
  show ?thesis unfolding own by blast
qed

text \<open>
  C1 as worded fails for the name \<open>.Foo\<close>, whose only \<open>.\<close> is at position 0: the entry
  is registered under \<open>v-.Foo\<close>, and nothing under the view's id, \<open>-\<close> and the last
  dot-segment \<open>Foo\<close>.
\<close>

theorem openDialog_registers_once_counterexample:
  "specFragmentKey homeController ''.Foo'' = ''v-Foo''
   \<and> (case openDialogCompleted homeController ''.Foo'' None None None None None 9 freshState of
        Inl e \<Rightarrow> []
      | Inr (st', p) \<Rightarrow> fragments st')
      = [(''v-.Foo'', \<lparr>fragment = FLoaded 9, controller = CRef 0\<rparr>)]
   \<and> (case openDialogCompleted homeController ''.Foo'' None None None None None 9 freshState of
        Inl e \<Rightarrow> None
      | Inr (st', p) \<Rightarrow> lookupFragment st' (specFragmentKey homeController ''.Foo'')) = None"
  by code_simp

text \<open>
  A call that finds an entry whose fragment is still the placeholder, or \<open>undefined\<close>
  while the fragment is being loaded, raises a TypeError.
\<close>

lemma openDialog_while_loading:
  assumes "lookupFragment st (amendedFragmentKey this sName) = Some e"
    and "fragment e = FEmpty \<or> fragment e = FUndefined"
  shows "openDialog this sName model upd cb data st = Inl TypeError"
proof -
  obtain sViewPath sName' where n: "dialogNames this sName = (sViewPath, sName')"
    by (cases "dialogNames this sName")
  from dialogNames_amended [OF n] assms(1)
  have "lookupFragment st (fragmentKey this sName') = Some e" by simp
  from openDialog_again [OF n this, of model upd cb data] assms(2)
  show ?thesis by auto
qed




text \<open>
  In general: with a new controller that has no \<open>onBeforeShow\<close> method a first call ends
  with the fragment and the controller registered, a TypeError recorded, no timer set and
  the fragment not opened by the call.
\<close>

lemma openDialog_without_onBeforeShow:
  assumes "lookupFragment st (amendedFragmentKey this sName) = None"
    and "c \<noteq> self this" and "\<not> hasOnBeforeShow st c"
  shows "\<exists>st'. openDialogCompleted this sName model upd cb data (Some c) d st = Inr (st', None)
            \<and> newCalls st st' =
                [Controller_create
                   (replace (fst (dialogNames this sName)) ''view'' ''controller''
                      @ snd (dialogNames this sName)),
                 Sap_ui_require ''sap/ui/core/Fragment'',
                 Fragment_load (amendedFragmentKey this sName) (amendedFragmentName this sName)
                   (Some c),
                 View_addDependent (viewId (view this)) d]
                @ setModelCalls d model upd
            \<and> lookupFragment st' (amendedFragmentKey this sName) =
                Some \<lparr>fragment = FLoaded d, controller = CRef c\<rparr>
            \<and> isOpen st' = isOpen st \<and> unhandled st' = unhandled st @ [TypeError]"
proof -
  from assms(2,3) have "\<not> showable this (Some c) st"
    by (simp add: showable_def settledController_def)
  with assms(1) show ?thesis
    by (simp add: openDialogCompleted_result lookup_created creationCalls_def isOpen_created
          unhandled_created settledController_def)
qed

section \<open>Properties of getFragment and of the model of a fragment\<close>

lemma startsWith_append [simp]: "startsWith (p @ s) p"
  by (induction p) auto

lemma not_dotted_lastSegment [simp]: "\<not> dotted (lastSegment n)"
  using lastSegment_no_dot [of n] by (simp add: dotted_def)

lemma ownRegistry_absent:
  assumes "ownRegistry this st" and "dotted n"
  shows "getFragment this n st = None"
proof (rule ccontr)
  assume "getFragment this n st \<noteq> None"
  then have "fragmentKey this n \<in> fst ` set (fragments st)"
    by (simp add: getFragment_def lookupFragment_def map_of_eq_None_iff)
  with assms(1) have "\<not> dotted (drop (length (viewId (view this)) + 1) (fragmentKey this n))"
    by (auto simp add: ownRegistry_def list_all_iff)
  with assms(2) show False by (simp add: fragmentKey_def)
qed

lemma ownRegistry_created:
  assumes "ownRegistry this st"
  shows "ownRegistry this (createdState this sName model upd cb data outcome d st)"
proof -
  have "fst ` set (fragments (createdState this sName model upd cb data outcome d st)) =
      {amendedFragmentKey this sName} \<union> fst ` set (fragments st)"
    by (simp add: createdState_def dom_update)
  moreover have "startsWith (amendedFragmentKey this sName) (viewId (view this) @ ''-'')
      \<and> \<not> dotted (drop (length (viewId (view this)) + 1) (amendedFragmentKey this sName))"
    using startsWith_append [of "viewId (view this) @ ''-''"]
    by (simp add: amendedFragmentKey_def del: startsWith_append)
  ultimately show ?thesis
    using assms by (auto simp add: ownRegistry_def list_all_iff)
qed

lemma lastSegment_differs: "dotted n \<Longrightarrow> n \<noteq> lastSegment n"
  using lastSegment_no_dot [of n] by (auto simp add: dotted_def)

lemma getFragment_fresh [simp]: "fragments st = [] \<Longrightarrow> getFragment this s st = None"
  by (simp add: getFragment_def lookupFragment_def)

text \<open>
  C9, amended. Let the first \<open>.\<close> of \<open>n\<close> be at a position greater than 0 and let
  \<open>openDialog\<close> of \<open>n\<close> have completed. \<open>getFragment\<close> reads the key the call
  registered under exactly when its argument is the last segment of \<open>n\<close>, and answers
  the entry with the fragment and the controller for it. For every other argument, the
  full name \<open>n\<close> among them, it answers what the registry held before the call:
  \<open>undefined\<close> when nothing was registered under that key, as in a registry that was
  empty before and in every registry filled by the calls of this view alone.
\<close>

theorem getFragment_after_openDialog:
  assumes "dotted n"
    and "openDialogCompleted this n model upd cb data outcome d st = Inr (st', p)"
  shows "getFragment this (lastSegment n) st' =
           (if getFragment this (lastSegment n) st = None
            then Some \<lparr>fragment = FLoaded d, controller = CRef (settledController this outcome)\<rparr>
            else getFragment this (lastSegment n) st)
       \<and> (\<forall>s. (fragmentKey this s = amendedFragmentKey this n) = (s = lastSegment n))
       \<and> (\<forall>s. s \<noteq> lastSegment n \<longrightarrow> getFragment this s st' = getFragment this s st)
       \<and> n \<noteq> lastSegment n
       \<and> (getFragment this n st = None \<longrightarrow> getFragment this n st' = None)
       \<and> (fragments st = [] \<longrightarrow> (\<forall>s. (getFragment this s st' \<noteq> None) = (s = lastSegment n)))
       \<and> (ownRegistry this st \<longrightarrow> ownRegistry this st' \<and> getFragment this n st' = None)"
proof -
  have key: "amendedFragmentKey this n = fragmentKey this (lastSegment n)"
    using assms(1) by (simp add: amendedFragmentKey_def fragmentKey_def)
  have inj: "(fragmentKey this s = fragmentKey this (lastSegment n)) = (s = lastSegment n)" for s
    by (simp add: fragmentKey_def)
  have diff: "n \<noteq> lastSegment n"
    using assms(1) by (rule lastSegment_differs)
  have res: "getFragment this s st' =
      (if s = lastSegment n \<and> getFragment this (lastSegment n) st = None
       then Some \<lparr>fragment = FLoaded d, controller = CRef (settledController this outcome)\<rparr>
       else getFragment this s st)" for s
  proof (cases "lookupFragment st (fragmentKey this (lastSegment n))")
    case None
    with assms(2) have "st' = createdState this n model upd cb data outcome d st"
      by (simp add: openDialogCompleted_result key)
    with None show ?thesis
      by (simp add: getFragment_def lookup_created key inj)
  next
    case (Some e)
    with assms(2) obtain d' where "st' = openFragment d' st"
      by (cases "fragment e") (auto simp add: openDialogCompleted_result key)
    with Some show ?thesis
      by (simp add: getFragment_def)
  qed
  have own: "ownRegistry this st'" if o: "ownRegistry this st"
  proof (cases "lookupFragment st (fragmentKey this (lastSegment n))")
    case None
    with assms(2) have "st' = createdState this n model upd cb data outcome d st"
      by (simp add: openDialogCompleted_result key)
    with o show ?thesis by (simp add: ownRegistry_created)
  next
    case (Some e)
    with assms(2) obtain d' where "st' = openFragment d' st"
      by (cases "fragment e") (auto simp add: openDialogCompleted_result key)
    with o show ?thesis by (simp add: ownRegistry_def openFragment_def called_def)
  qed
  have none: "getFragment this n st' = None" if o: "ownRegistry this st"
    using ownRegistry_absent [OF own [OF o] assms(1)] .
  have main: "getFragment this (lastSegment n) st' =
           (if getFragment this (lastSegment n) st = None
            then Some \<lparr>fragment = FLoaded d, controller = CRef (settledController this outcome)\<rparr>
            else getFragment this (lastSegment n) st)
       \<and> (\<forall>s. (fragmentKey this s = amendedFragmentKey this n) = (s = lastSegment n))
       \<and> (\<forall>s. s \<noteq> lastSegment n \<longrightarrow> getFragment this s st' = getFragment this s st)
       \<and> n \<noteq> lastSegment n
       \<and> (getFragment this n st = None \<longrightarrow> getFragment this n st' = None)
       \<and> (fragments st = [] \<longrightarrow> (\<forall>s. (getFragment this s st' \<noteq> None) = (s = lastSegment n)))"
    using diff by (auto simp add: res key inj)
  with own none show ?thesis by blast
qed

theorem getFragment_after_openDialog_witness:
  "\<exists>st'. openDialogCompleted homeController ''lib.view.Confirm'' None None None None None 9
            freshState = Inr (st', None)
     \<and> getFragment homeController ''Confirm'' st' =
         Some \<lparr>fragment = FLoaded 9, controller = CRef 0\<rparr>
     \<and> getFragment homeController ''lib.view.Confirm'' st' = None"
proof -
  have d: "dotted ''lib.view.Confirm''"
    by code_simp
  have seg: "lastSegment ''lib.view.Confirm'' = ''Confirm''"
    by code_simp
  have own: "settledController homeController None = 0"
    by code_simp
  have fresh: "fragments freshState = []"
    by (simp add: freshState_def)
  have absent: "lookupFragment freshState (amendedFragmentKey homeController ''lib.view.Confirm'') = None"
    by code_simp
  then obtain st' where
    r: "openDialogCompleted homeController ''lib.view.Confirm'' None None None None None 9
          freshState = Inr (st', None)"
    by (simp add: openDialogCompleted_result)
  from getFragment_after_openDialog [OF d r] fresh
  have "getFragment homeController ''Confirm'' st' =
         Some \<lparr>fragment = FLoaded 9, controller = CRef 0\<rparr>
     \<and> getFragment homeController ''lib.view.Confirm'' st' = None"
    unfolding seg own by simp
  with r show ?thesis by blast
qed

text \<open>
  C9 as worded fails when an entry is registered under the view's id, \<open>-\<close> and the full
  name: after the view \<open>v-a.b\<close> has opened \<open>c\<close> and the view \<open>v\<close> has opened
  \<open>a.b-c\<close>, the registry has the keys \<open>v-a.b-c\<close> and \<open>v-b-c\<close>, and
  \<open>getFragment\<close> of the full name \<open>a.b-c\<close> on the view \<open>v\<close> answers the entry of
  the other view, not \<open>undefined\<close>.
\<close>

theorem getFragment_after_openDialog_counterexample:
  "dotted ''a.b-c''
   \<and> (case openDialogCompleted otherController ''c'' None None None None None 8 freshState of
        Inl e \<Rightarrow> None
      | Inr (st1, p1) \<Rightarrow>
          (case openDialogCompleted homeController ''a.b-c'' None None None None None 9 st1 of
             Inl e \<Rightarrow> None
           | Inr (st2, p2) \<Rightarrow>
               Some (map fst (fragments st2),
                     getFragment homeController ''b-c'' st2,
                     getFragment homeController ''a.b-c'' st2)))
     = Some ([''v-a.b-c'', ''v-b-c''],
             Some \<lparr>fragment = FLoaded 9, controller = CRef 0\<rparr>,
             Some \<lparr>fragment = FLoaded 8, controller = CRef 1\<rparr>)"
  by code_simp

text \<open>
  C10. Whatever the state it is called in, a completed \<open>openDialog\<close> sets a model only
  on the fragment it has created, and only when a model was given and
  \<open>updateModelAlways\<close> is true. With \<open>updateModelAlways\<close> false or omitted no model
  is set, on the first creation or later; without a model none is set either.
\<close>

theorem openDialog_sets_model:
  assumes "openDialogCompleted this sName model upd cb data outcome d st = Inr (st', p)"
  shows "modelsSet (newCalls st st') =
           (if lookupFragment st (amendedFragmentKey this sName) = None
            then (case (model, upd) of (Some m, Some True) \<Rightarrow> [(d, m)] | _ \<Rightarrow> [])
            else [])
       \<and> (upd = None \<or> upd = Some False \<longrightarrow> modelsSet (newCalls st st') = [])
       \<and> (model = None \<longrightarrow> modelsSet (newCalls st st') = [])"
proof -
  have res: "modelsSet (newCalls st st') =
           (if lookupFragment st (amendedFragmentKey this sName) = None
            then (case (model, upd) of (Some m, Some True) \<Rightarrow> [(d, m)] | _ \<Rightarrow> [])
            else [])"
  proof (cases "lookupFragment st (amendedFragmentKey this sName)")
    case None
    with assms have "st' = createdState this sName model upd cb data outcome d st"
      by (simp add: openDialogCompleted_result)
    with None show ?thesis
      by (simp add: modelsSet_creationCalls)
  next
    case (Some e)
    with assms obtain d' where "st' = openFragment d' st"
      by (cases "fragment e") (auto simp add: openDialogCompleted_result)
    with Some show ?thesis
      by simp
  qed
  then show ?thesis
    by (auto split: option.splits bool.splits)
qed

theorem openDialog_sets_model_witness:
  "(\<exists>st'. openDialogCompleted homeController ''lib.view.Confirm'' (Some 5) None None None
             None 9 freshState = Inr (st', None)
      \<and> modelsSet (newCalls freshState st') = [])
   \<and> (\<exists>st'. openDialogCompleted homeController ''lib.view.Confirm'' (Some 5) (Some True) None None
             None 9 freshState = Inr (st', None)
      \<and> modelsSet (newCalls freshState st') = [(9, 5)])
   \<and> (\<exists>st'. openDialogCompleted homeController ''lib.view.Confirm'' (Some 5) (Some True) None None
             None 9 loadedState = Inr (st', None)
      \<and> modelsSet (newCalls loadedState st') = [])"
proof -
  have absent: "lookupFragment freshState (amendedFragmentKey homeController ''lib.view.Confirm'') = None"
    by code_simp
  have present: "lookupFragment loadedState (amendedFragmentKey homeController ''lib.view.Confirm'') =
      Some \<lparr>fragment = FLoaded 9, controller = CRef 1\<rparr>"
    by code_simp
  from absent obtain st1 where
    r1: "openDialogCompleted homeController ''lib.view.Confirm'' (Some 5) None None None
          None 9 freshState = Inr (st1, None)"
    by (simp add: openDialogCompleted_result)
  from absent obtain st2 where
    r2: "openDialogCompleted homeController ''lib.view.Confirm'' (Some 5) (Some True) None None
          None 9 freshState = Inr (st2, None)"
    by (simp add: openDialogCompleted_result)
  from present obtain st3 where
    r3: "openDialogCompleted homeController ''lib.view.Confirm'' (Some 5) (Some True) None None
          None 9 loadedState = Inr (st3, None)"
    by (simp add: openDialogCompleted_result)
  from openDialog_sets_model [OF r1] absent
  have m1: "modelsSet (newCalls freshState st1) = []" by simp
  from openDialog_sets_model [OF r2] absent
  have m2: "modelsSet (newCalls freshState st2) = [(9, 5)]" by simp
  from openDialog_sets_model [OF r3] present
  have m3: "modelsSet (newCalls loadedState st3) = []" by simp
  from r1 m1 r2 m2 r3 m3 show ?thesis by blast
qed

end
